theory Spec2Isabelle
  imports Main
begin

section \<open>The file system the extension reads\<close>

text \<open>
  A path is the list of its components below the file-system root; the names that
  \<^verbatim>\<open>readdir\<close> returns hold no separator, so \<^verbatim>\<open>path.join(dirPath, entry.name)\<close> appends one
  component. The disk is a finite tree: a file with its text, or a directory with its
  entries in the order the operating system lists them; the flag of either says whether
  the process may read it.
\<close>

type_synonym path = "string list"

definition path_join :: "path \<Rightarrow> string \<Rightarrow> path" where
  "path_join dirPath nm = dirPath @ [nm]"

datatype fsnode = File bool string | Dir bool "(string \<times> fsnode) list"

datatype errno = ENOENT | ENOTDIR | EISDIR | EACCES

datatype error = IOError errno path | TypeError

record Dirent =
  name :: string
  isDirectory :: bool

fun is_dir :: "fsnode \<Rightarrow> bool" where
  "is_dir (Dir _ _) = True"
| "is_dir (File _ _) = False"

fun lookup :: "fsnode \<Rightarrow> path \<Rightarrow> fsnode option" where
  "lookup n [] = Some n"
| "lookup (Dir ok es) (c # cs) =
     (case map_of es c of None \<Rightarrow> None | Some child \<Rightarrow> lookup child cs)"
| "lookup (File ok body) (c # cs) = None"

text \<open>\<^verbatim>\<open>fs.promises.readdir(dirPath, { withFileTypes: true })\<close>: the entries, or the error
  the promise is rejected with.\<close>

definition readdir :: "fsnode \<Rightarrow> path \<Rightarrow> error + Dirent list" where
  "readdir fs dirPath =
     (case lookup fs dirPath of
        None \<Rightarrow> Inl (IOError ENOENT dirPath)
      | Some (File ok body) \<Rightarrow> Inl (IOError ENOTDIR dirPath)
      | Some (Dir ok es) \<Rightarrow>
          if ok then Inr (map (\<lambda>(nm, child). \<lparr>name = nm, isDirectory = is_dir child\<rparr>) es)
          else Inl (IOError EACCES dirPath))"

text \<open>\<^verbatim>\<open>fs.promises.readFile(file, 'utf8')\<close>.\<close>

definition readFile :: "fsnode \<Rightarrow> path \<Rightarrow> error + string" where
  "readFile fs file =
     (case lookup fs file of
        None \<Rightarrow> Inl (IOError ENOENT file)
      | Some (Dir ok es) \<Rightarrow> Inl (IOError EISDIR file)
      | Some (File ok body) \<Rightarrow> if ok then Inr body else Inl (IOError EACCES file))"

fun height :: "fsnode \<Rightarrow> nat" where
  "height (File ok body) = 0"
| "height (Dir ok es) = Suc (fold max (map (\<lambda>e. height (snd e)) es) 0)"

section \<open>FileItem and the provider\<close>

datatype TreeItemCollapsibleState = CollapsibleNone | Collapsed | Expanded

datatype TreeItemCheckboxState = Unchecked | Checked

record FileItem =
  label :: string
  collapsibleState :: TreeItemCollapsibleState
  filePath :: path
  isChecked :: bool
  checkboxState :: TreeItemCheckboxState

definition new_FileItem ::
  "string \<Rightarrow> TreeItemCollapsibleState \<Rightarrow> path \<Rightarrow> bool \<Rightarrow> FileItem" where
  "new_FileItem lbl cs fp chk =
     \<lparr>label = lbl, collapsibleState = cs, filePath = fp, isChecked = chk,
      checkboxState = (if chk then Checked else Unchecked)\<rparr>"

definition updateCheckState :: "bool \<Rightarrow> FileItem \<Rightarrow> FileItem" where
  "updateCheckState chk item =
     item\<lparr>isChecked := chk, checkboxState := (if chk then Checked else Unchecked)\<rparr>"

text \<open>
  FileItem objects are mutated in place and shared between the tree view and the map
  \<^verbatim>\<open>items\<close>, so they live in a store: \<open>objs\<close> maps a reference to the object, \<open>fresh\<close>
  is the next unused reference. \<open>items\<close> is the JavaScript \<^verbatim>\<open>Map\<close>: an association list
  in insertion order, whose \<^verbatim>\<open>set\<close> replaces the value of a present key where it stands
  and appends an absent key.
\<close>

record provider =
  objs :: "nat \<Rightarrow> FileItem"
  fresh :: nat
  items :: "(path \<times> nat) list"
  allChecked :: bool
  workspaceRoot :: "path option"

fun Map_set :: "path \<Rightarrow> nat \<Rightarrow> (path \<times> nat) list \<Rightarrow> (path \<times> nat) list" where
  "Map_set k v [] = [(k, v)]"
| "Map_set k v ((k', v') # m) = (if k' = k then (k, v) # m else (k', v') # Map_set k v m)"

definition Map_get :: "provider \<Rightarrow> path \<Rightarrow> FileItem option" where
  "Map_get st k = map_option (objs st) (map_of (items st) k)"

definition alloc :: "FileItem \<Rightarrow> provider \<Rightarrow> nat \<times> provider" where
  "alloc item st = (fresh st, st\<lparr>objs := (objs st)(fresh st := item), fresh := Suc (fresh st)\<rparr>)"

definition init :: "path option \<Rightarrow> provider" where
  "init root =
     \<lparr>objs = (\<lambda>_. new_FileItem [] CollapsibleNone [] False), fresh = 0, items = [],
      allChecked = False, workspaceRoot = root\<rparr>"

definition ignored :: "string \<Rightarrow> bool" where
  "ignored nm = (nm = ''node_modules'' \<or> nm = ''.git'')"


section \<open>Toggling\<close>

text \<open>
  An asynchronous function returns a promise, which settles as resolved or as rejected
  with an error. The operations of the provider run one after the other, so a promise is
  modelled by how it settles and by the state it leaves; what was mutated before a
  rejection stays mutated.
\<close>

datatype promise = Resolved | Rejected error

text \<open>
  \<^verbatim>\<open>toggleDirectoryChildren\<close> lists the directory and loops over the entries
  (\<open>toggleDirectoryChildren_loop\<close> is that \<^verbatim>\<open>for\<close> loop), calling itself on every
  sub-directory it does not skip. The recursion follows the disk, which is finite: a
  directory that can be listed lies less deep than the tree is high.
\<close>

function toggleDirectoryChildren ::
    "fsnode \<Rightarrow> path \<Rightarrow> bool \<Rightarrow> provider \<Rightarrow> promise \<times> provider"
  and toggleDirectoryChildren_loop ::
    "fsnode \<Rightarrow> path \<Rightarrow> bool \<Rightarrow> Dirent list \<Rightarrow> provider \<Rightarrow> promise \<times> provider"
where
  "toggleDirectoryChildren fs dirPath checked st =
     (case readdir fs dirPath of
        Inl e \<Rightarrow> (Rejected e, st)
      | Inr entries \<Rightarrow> toggleDirectoryChildren_loop fs dirPath checked entries st)"
| "toggleDirectoryChildren_loop fs dirPath checked [] st = (Resolved, st)"
| "toggleDirectoryChildren_loop fs dirPath checked (entry # rest) st =
     (if name entry = ''node_modules'' \<or> name entry = ''.git'' then
        toggleDirectoryChildren_loop fs dirPath checked rest st
      else
        let filePath = path_join dirPath (name entry);
            st1 = (case map_of (items st) filePath of
                     None \<Rightarrow> st
                   | Some item \<Rightarrow>
                       st\<lparr>objs := (objs st)(item := updateCheckState checked (objs st item))\<rparr>)
        in if isDirectory entry then
             (case toggleDirectoryChildren fs filePath checked st1 of
                (Rejected e, st2) \<Rightarrow> (Rejected e, st2)
              | (Resolved, st2) \<Rightarrow> toggleDirectoryChildren_loop fs dirPath checked rest st2)
           else toggleDirectoryChildren_loop fs dirPath checked rest st1)"
  by pat_completeness auto
termination
proof -
  have bound: "b \<le> fold max ys b" for ys and b :: nat
    by (induction ys arbitrary: b) (auto intro: order_trans[OF max.cobounded2])
  have fold_max_ge: "x \<le> fold max xs a" if "x \<in> set xs" for x a :: nat and xs
    using that by (induction xs arbitrary: a) (auto intro: order_trans[OF max.cobounded1 bound])
  have lookup_height: "length p + height n \<le> height fs" if "lookup fs p = Some n" for fs p n
    using that
  proof (induction fs p rule: lookup.induct)
    case (2 ok es c cs)
    then obtain child where c: "map_of es c = Some child" and l: "lookup child cs = Some n"
      by (auto split: option.splits)
    from c have "(c, child) \<in> set es" by (rule map_of_SomeD)
    then have "height child \<le> fold max (map (\<lambda>e. height (snd e)) es) 0"
      by (intro fold_max_ge) (force simp: image_iff)
    with 2 c l show ?case by auto
  qed simp_all
  have readdir_height: "length p < height fs" if "readdir fs p = Inr es" for fs p es
  proof -
    from that obtain ok ch where "lookup fs p = Some (Dir ok ch)"
      by (auto simp: readdir_def split: option.splits fsnode.splits if_splits)
    from lookup_height[OF this] show ?thesis by simp
  qed
  show ?thesis
    apply (relation "inv_image (less_than <*lex*> less_than <*lex*> less_than)
     (\<lambda>x. case x of
        Inl (fs, p, c, st) \<Rightarrow>
          ((case readdir fs p of Inr _ \<Rightarrow> Suc (height fs - length p) | Inl _ \<Rightarrow> 0), Suc 0, 0)
      | Inr (fs, p, c, es, st) \<Rightarrow> (Suc (height fs - length p), 0, length es))")
         apply (intro wf_inv_image wf_lex_prod wf_less_than)
        apply (auto simp: path_join_def split: sum.splits dest: readdir_height)
    done
qed

text \<open>
  \<^verbatim>\<open>toggleCheck\<close> is not \<^verbatim>\<open>async\<close>: it flips the item, calls \<^verbatim>\<open>toggleDirectoryChildren\<close>
  without \<^verbatim>\<open>await\<close> and returns. \<open>raised\<close> is the exception its caller receives,
  \<open>detached\<close> how the promise it drops settles (\<open>None\<close> when none was made), \<open>post\<close> the
  provider once that promise has settled, no other operation running in between.
  \<^verbatim>\<open>refresh\<close> fires the change event and \<^verbatim>\<open>saveState\<close> writes to the console; neither
  touches the provider, and the model leaves them and the other console output out.
\<close>

record toggle_outcome =
  raised :: "error option"
  detached :: "promise option"
  post :: provider

definition toggleCheck :: "fsnode \<Rightarrow> nat \<Rightarrow> provider \<Rightarrow> toggle_outcome" where
  "toggleCheck fs item st =
     (let newState = \<not> isChecked (objs st item);
          st1 = st\<lparr>objs := (objs st)(item := updateCheckState newState (objs st item))\<rparr>
      in if collapsibleState (objs st1 item) \<noteq> CollapsibleNone then
           (case toggleDirectoryChildren fs (filePath (objs st1 item)) newState st1 of
              (p, st2) \<Rightarrow> \<lparr>raised = None, detached = Some p, post = st2\<rparr>)
         else \<lparr>raised = None, detached = None, post = st1\<rparr>)"

datatype message = InformationMessage string | WarningMessage string | ErrorMessage string

fun toggleAllFiles_loop ::
  "(path \<times> nat) list \<Rightarrow> bool \<Rightarrow> (nat \<Rightarrow> FileItem) \<Rightarrow> (nat \<Rightarrow> FileItem)" where
  "toggleAllFiles_loop [] chk h = h"
| "toggleAllFiles_loop ((p, item) # rest) chk h =
     toggleAllFiles_loop rest chk (h(item := updateCheckState chk (h item)))"

definition toggleAllFiles :: "provider \<Rightarrow> message \<times> provider" where
  "toggleAllFiles st =
     (let st1 = st\<lparr>allChecked := \<not> allChecked st\<rparr>;
          st2 = st1\<lparr>objs := toggleAllFiles_loop (items st1) (allChecked st1) (objs st1)\<rparr>
      in (InformationMessage
            (if allChecked st2 then ''All files selected'' else ''All files deselected''),
          st2))"

section \<open>Expanding a directory\<close>

fun getFilesInDirectory_loop ::
  "path \<Rightarrow> Dirent list \<Rightarrow> nat list \<Rightarrow> provider \<Rightarrow> nat list \<times> provider" where
  "getFilesInDirectory_loop dirPath [] acc st = (acc, st)"
| "getFilesInDirectory_loop dirPath (entry # rest) acc st =
     (let filePath = path_join dirPath (name entry) in
      if isDirectory entry \<and> (name entry = ''node_modules'' \<or> name entry = ''.git'') then
        getFilesInDirectory_loop dirPath rest acc st
      else if isDirectory entry then
        (case alloc (new_FileItem (name entry) Collapsed filePath
                      (case Map_get st filePath of Some old \<Rightarrow> isChecked old | None \<Rightarrow> False)) st of
           (item, st1) \<Rightarrow>
             getFilesInDirectory_loop dirPath rest (acc @ [item])
               (st1\<lparr>items := Map_set filePath item (items st1)\<rparr>))
      else
        (case alloc (new_FileItem (name entry) CollapsibleNone filePath
                      (case Map_get st filePath of Some old \<Rightarrow> isChecked old | None \<Rightarrow> False)) st of
           (item, st1) \<Rightarrow>
             getFilesInDirectory_loop dirPath rest (acc @ [item])
               (st1\<lparr>items := Map_set filePath item (items st1)\<rparr>)))"

definition getFilesInDirectory ::
  "fsnode \<Rightarrow> path \<Rightarrow> provider \<Rightarrow> (error + nat list) \<times> provider" where
  "getFilesInDirectory fs dirPath st =
     (case readdir fs dirPath of
        Inl e \<Rightarrow> (Inl e, st)
      | Inr entries \<Rightarrow>
          (case getFilesInDirectory_loop dirPath entries [] st of
             (its, st') \<Rightarrow> (Inr its, st')))"

definition getChildren ::
  "fsnode \<Rightarrow> nat option \<Rightarrow> provider \<Rightarrow> (error + nat list) \<times> provider" where
  "getChildren fs element st =
     (case workspaceRoot st of
        None \<Rightarrow> (Inr [], st)
      | Some root \<Rightarrow>
          (case element of
             Some item \<Rightarrow> getFilesInDirectory fs (filePath (objs st item)) st
           | None \<Rightarrow> getFilesInDirectory fs root st))"

section \<open>Collecting the checked files\<close>

fun getCheckedFiles_loop ::
  "(path \<times> nat) list \<Rightarrow> (nat \<Rightarrow> FileItem) \<Rightarrow> path list \<Rightarrow> path list" where
  "getCheckedFiles_loop [] h checkedFiles = checkedFiles"
| "getCheckedFiles_loop ((p, item) # rest) h checkedFiles =
     (if isChecked (h item) \<and> collapsibleState (h item) = CollapsibleNone then
        getCheckedFiles_loop rest h (checkedFiles @ [p])
      else getCheckedFiles_loop rest h checkedFiles)"

definition getCheckedFiles :: "provider \<Rightarrow> path list" where
  "getCheckedFiles st = getCheckedFiles_loop (items st) (objs st) []"

section \<open>Generating the combined file\<close>

text \<open>
  \<^verbatim>\<open>path.relative(from, to)\<close> on absolute normalised paths: drop the common leading
  components, climb out of what is left of \<open>from\<close>, descend into what is left of \<open>to\<close>.
\<close>

fun strip_common :: "path \<Rightarrow> path \<Rightarrow> path \<times> path" where
  "strip_common (a # as) (b # bs) = (if a = b then strip_common as bs else (a # as, b # bs))"
| "strip_common as bs = (as, bs)"

fun join_sep :: "string list \<Rightarrow> string" where
  "join_sep [] = []"
| "join_sep [c] = c"
| "join_sep (c # cs) = c @ ''/'' @ join_sep cs"

definition path_relative :: "path \<Rightarrow> path \<Rightarrow> string" where
  "path_relative from to =
     (case strip_common from to of (f, t) \<Rightarrow> join_sep (replicate (length f) ''..'' @ t))"

definition newline :: char where
  "newline = CHR 0x0A"

text \<open>The text of \<^verbatim>\<open>error.message\<close> is Node's; it is kept as the code and the path.\<close>

fun errno_text :: "errno \<Rightarrow> string" where
  "errno_text ENOENT = ''ENOENT: no such file or directory''"
| "errno_text ENOTDIR = ''ENOTDIR: not a directory''"
| "errno_text EISDIR = ''EISDIR: illegal operation on a directory''"
| "errno_text EACCES = ''EACCES: permission denied''"

fun error_message :: "error \<Rightarrow> string" where
  "error_message (IOError c p) = errno_text c @ '', /'' @ join_sep p"
| "error_message TypeError = ''The path argument must be of type string. Received undefined''"

text \<open>
  What the user and the host answer during one \<^verbatim>\<open>generateFile\<close>: the text typed into the
  input box (\<open>None\<close> when the box is dismissed), the error of \<^verbatim>\<open>writeFile\<close> if it fails,
  and whether the button \<^verbatim>\<open>Open File\<close> is pressed.
\<close>

record answers =
  typed :: "string option"
  writeError :: "error option"
  pressedOpen :: bool

definition validateInput :: "string \<Rightarrow> string option" where
  "validateInput v =
     (if v = [] then Some ''File name is required''
      else if CHR ''.'' \<in> set v then Some ''Please enter name without extension''
      else None)"

text \<open>The input box hands back only a text its validator accepts.\<close>

definition showInputBox :: "string option \<Rightarrow> string option" where
  "showInputBox t =
     (case t of
        None \<Rightarrow> None
      | Some v \<Rightarrow> (case validateInput v of None \<Rightarrow> Some v | Some complaint \<Rightarrow> None))"

text \<open>
  What one \<^verbatim>\<open>generateFile\<close> does to the outside: the messages shown, the files handed to
  \<^verbatim>\<open>readFile\<close> in order, the file written, the document opened, and the error its promise
  is rejected with (the \<^verbatim>\<open>try\<close> block catches every other one).
\<close>

record gen_outcome =
  shown :: "message list"
  reads :: "path list"
  written :: "(path \<times> string) option"
  opened :: "path option"
  rejected :: "error option"

definition quiet :: gen_outcome where
  "quiet = \<lparr>shown = [], reads = [], written = None, opened = None, rejected = None\<rparr>"

fun generateFile_loop ::
  "fsnode \<Rightarrow> path \<Rightarrow> path list \<Rightarrow> string \<Rightarrow> path list \<Rightarrow> (error + string) \<times> path list" where
  "generateFile_loop fs root [] output rd = (Inr output, rd)"
| "generateFile_loop fs root (file # rest) output rd =
     (case readFile fs file of
        Inl e \<Rightarrow> (Inl e, rd @ [file])
      | Inr content \<Rightarrow>
          generateFile_loop fs root rest
            (output @ ''// File: '' @ path_relative root file @ [newline] @ content
               @ [newline, newline])
            (rd @ [file]))"

definition generateFile :: "fsnode \<Rightarrow> answers \<Rightarrow> provider \<Rightarrow> gen_outcome \<times> provider" where
  "generateFile fs ans st =
     (let checkedFiles = getCheckedFiles st in
      if checkedFiles = [] then (quiet\<lparr>shown := [WarningMessage ''No files selected!'']\<rparr>, st)
      else
        (case showInputBox (typed ans) of
           None \<Rightarrow> (quiet, st)
         | Some fileName \<Rightarrow>
             if fileName = [] then (quiet, st)
             else
               (case workspaceRoot st of
                  None \<Rightarrow> (quiet\<lparr>rejected := Some TypeError\<rparr>, st)
                | Some root \<Rightarrow>
                    (let outputPath = path_join root (fileName @ ''.txt'') in
                     case generateFile_loop fs root checkedFiles [] [] of
                       (Inl e, rd) \<Rightarrow>
                         (quiet\<lparr>shown := [ErrorMessage (''Error generating file: '' @ error_message e)],
                                reads := rd\<rparr>, st)
                     | (Inr output, rd) \<Rightarrow>
                         (case writeError ans of
                            Some e \<Rightarrow>
                              (quiet\<lparr>shown := [ErrorMessage (''Error generating file: '' @ error_message e)],
                                     reads := rd\<rparr>, st)
                          | None \<Rightarrow>
                              (quiet\<lparr>shown := [InformationMessage (''Generated file: '' @ fileName @ ''.txt'')],
                                     reads := rd,
                                     written := Some (outputPath, output),
                                     opened := (if pressedOpen ans then Some outputPath else None)\<rparr>,
                               st))))))"


section \<open>A workspace to run the operations on\<close>

text \<open>
  The workspace \<^verbatim>\<open>/ws\<close> holds \<^verbatim>\<open>a.txt\<close>, the directory \<^verbatim>\<open>sub\<close> with \<^verbatim>\<open>b.txt\<close>, and
  \<^verbatim>\<open>node_modules\<close>. \<open>st_root\<close> is the provider after the view has asked for the children
  of the root, \<open>st_sub\<close> after it has also expanded \<^verbatim>\<open>sub\<close>.
\<close>

definition disk1 :: fsnode where
  "disk1 = Dir True [(''ws'', Dir True
      [(''a.txt'', File True ''X''),
       (''sub'', Dir True [(''b.txt'', File True ''Y'')]),
       (''node_modules'', Dir True [(''ignored.txt'', File True ''Z'')])])]"

definition st_root :: provider where
  "st_root = snd (getChildren disk1 None (init (Some [''ws''])))"

definition st_sub :: provider where
  "st_sub = snd (getChildren disk1 (Some 1) st_root)"

text \<open>\<open>st_a\<close> is \<open>st_root\<close> after \<^verbatim>\<open>a.txt\<close> was toggled.\<close>

definition st_a :: provider where
  "st_a = post (toggleCheck disk1 0 st_root)"

text \<open>
  A second workspace: \<^verbatim>\<open>proj\<close> holds \<^verbatim>\<open>a.txt\<close>, the directory \<^verbatim>\<open>secret\<close> that may not
  be listed, and \<^verbatim>\<open>z.txt\<close>; beside it lie \<^verbatim>\<open>q.txt\<close> and \<^verbatim>\<open>p.txt\<close>, which may not be
  read. \<open>st2_proj\<close> is the provider after the root and \<^verbatim>\<open>proj\<close> were expanded,
  \<open>st2_all\<close> after a toggle-all on top. \<open>st_sel\<close> is the first workspace with
  \<^verbatim>\<open>a.txt\<close> and \<^verbatim>\<open>sub\<close> toggled; \<open>typed_out\<close> is the user typing \<^verbatim>\<open>out\<close>.
\<close>

definition disk2 :: fsnode where
  "disk2 = Dir True [(''ws'', Dir True
      [(''proj'', Dir True
          [(''a.txt'', File True ''X''),
           (''secret'', Dir False [(''k.txt'', File True ''K'')]),
           (''z.txt'', File True ''Z'')]),
       (''q.txt'', File True ''Q''),
       (''p.txt'', File False ''P'')])]"

definition st2_proj :: provider where
  "st2_proj =
     snd (getChildren disk2 (Some 0) (snd (getChildren disk2 None (init (Some [''ws''])))))"

definition st2_all :: provider where
  "st2_all = snd (toggleAllFiles st2_proj)"

definition st_sel :: provider where
  "st_sel = post (toggleCheck disk1 1 (post (toggleCheck disk1 0 st_sub)))"

definition typed_out :: answers where
  "typed_out = \<lparr>typed = Some ''out'', writeError = None, pressedOpen = False\<rparr>"

text \<open>
  A third workspace, a checkout with a submodule: \<^verbatim>\<open>proj\<close> holds the file \<^verbatim>\<open>.git\<close> and
  \<^verbatim>\<open>a.txt\<close>. \<open>st3_proj\<close> is the provider after the root and \<^verbatim>\<open>proj\<close> were expanded.
\<close>

definition disk3 :: fsnode where
  "disk3 = Dir True [(''ws'', Dir True
      [(''proj'', Dir True
          [(''.git'', File True ''gitdir: ../.git/modules/proj''),
           (''a.txt'', File True ''X'')])])]"

definition st3_proj :: provider where
  "st3_proj =
     snd (getChildren disk3 (Some 0) (snd (getChildren disk3 None (init (Some [''ws''])))))"

section \<open>Notions the statements use\<close>

text \<open>
  \<open>mark c p\<close> is the body of the propagation loop for one entry:
  \<^verbatim>\<open>const item = this.items.get(filePath); if (item) item.updateCheckState(checked)\<close>.
  \<open>touched c st st'\<close> says that \<open>st'\<close> differs from \<open>st\<close> at most in objects that were
  given the checked value \<open>c\<close>.
\<close>

definition mark :: "bool \<Rightarrow> path \<Rightarrow> provider \<Rightarrow> provider" where
  "mark c p st =
     (case map_of (items st) p of
        None \<Rightarrow> st
      | Some item \<Rightarrow> st\<lparr>objs := (objs st)(item := updateCheckState c (objs st item))\<rparr>)"

definition touched :: "bool \<Rightarrow> provider \<Rightarrow> provider \<Rightarrow> bool" where
  "touched c st st' \<longleftrightarrow>
     items st' = items st \<and> fresh st' = fresh st \<and> allChecked st' = allChecked st \<and>
     workspaceRoot st' = workspaceRoot st \<and>
     (\<forall>r. objs st' r = objs st r \<or> objs st' r = updateCheckState c (objs st r))"

text \<open>
  In a state the provider can reach, every reference in \<open>items\<close> was allocated
  (\<open>allocated\<close>). \<open>known_checked st p\<close> is \<^verbatim>\<open>this.items.get(p)?.isChecked ?? false\<close>;
  \<open>listed e\<close> says that the listing keeps the entry \<open>e\<close>; \<open>item_for st d e\<close> is the
  FileItem the listing of \<open>d\<close> makes for it, and \<open>register d e\<close> stores that item under
  a fresh reference and sets it in the map.
\<close>

definition allocated :: "provider \<Rightarrow> bool" where
  "allocated st \<longleftrightarrow> (\<forall>(p, r) \<in> set (items st). r < fresh st)"

definition known_checked :: "provider \<Rightarrow> path \<Rightarrow> bool" where
  "known_checked st p =
     (case map_of (items st) p of None \<Rightarrow> False | Some r \<Rightarrow> isChecked (objs st r))"

definition listed :: "Dirent \<Rightarrow> bool" where
  "listed e \<longleftrightarrow> \<not> (isDirectory e \<and> ignored (name e))"

definition item_for :: "provider \<Rightarrow> path \<Rightarrow> Dirent \<Rightarrow> FileItem" where
  "item_for st d e =
     new_FileItem (name e) (if isDirectory e then Collapsed else CollapsibleNone)
       (path_join d (name e)) (known_checked st (path_join d (name e)))"

definition register :: "path \<Rightarrow> Dirent \<Rightarrow> provider \<Rightarrow> provider" where
  "register d e st =
     st\<lparr>objs := (objs st)(fresh st := item_for st d e), fresh := Suc (fresh st),
        items := Map_set (path_join d (name e)) (fresh st) (items st)\<rparr>"

text \<open>
  \<open>selected st\<close> is the test of \<^verbatim>\<open>getCheckedFiles\<close> on one map entry; \<open>block fs root file\<close>
  is what the loop of \<^verbatim>\<open>generateFile\<close> appends for one file.
\<close>

definition selected :: "provider \<Rightarrow> path \<times> nat \<Rightarrow> bool" where
  "selected st = (\<lambda>(p, item). isChecked (objs st item) \<and> collapsibleState (objs st item) = CollapsibleNone)"

definition block :: "fsnode \<Rightarrow> path \<Rightarrow> path \<Rightarrow> string" where
  "block fs root file =
     ''// File: '' @ path_relative root file @ [newline]
       @ (case readFile fs file of Inl e \<Rightarrow> [] | Inr content \<Rightarrow> content) @ [newline, newline]"

text \<open>
  \<open>descendant fs d q\<close>: the path \<open>q\<close> is an entry on the disk below the directory \<open>d\<close>,
  reached through listings that succeed and through entries whose name is neither
  \<^verbatim>\<open>node_modules\<close> nor \<^verbatim>\<open>.git\<close>.
\<close>

inductive descendant :: "fsnode \<Rightarrow> path \<Rightarrow> path \<Rightarrow> bool" for fs where
  child: "readdir fs d = Inr es \<Longrightarrow> e \<in> set es \<Longrightarrow> \<not> ignored (name e) \<Longrightarrow>
          descendant fs d (path_join d (name e))"
| deeper: "readdir fs d = Inr es \<Longrightarrow> e \<in> set es \<Longrightarrow> \<not> ignored (name e) \<Longrightarrow> isDirectory e \<Longrightarrow>
          descendant fs (path_join d (name e)) q \<Longrightarrow> descendant fs d q"

code_pred descendant .

text \<open>
  \<open>walk fs d trail pr\<close>: listing the directory \<open>d\<close> and its sub-directories in the order
  of the disk, skipping the names \<^verbatim>\<open>node_modules\<close> and \<^verbatim>\<open>.git\<close> and stopping at the first
  directory that cannot be listed, visits the entries \<open>trail\<close> in that order and ends as
  \<open>pr\<close>. The trail is a property of the disk alone; \<open>walk_entries\<close> is the same for the
  rest of one listing.
\<close>

inductive walk :: "fsnode \<Rightarrow> path \<Rightarrow> path list \<Rightarrow> promise \<Rightarrow> bool"
  and walk_entries :: "fsnode \<Rightarrow> path \<Rightarrow> Dirent list \<Rightarrow> path list \<Rightarrow> promise \<Rightarrow> bool"
  for fs where
  unreadable: "readdir fs d = Inl x \<Longrightarrow> walk fs d [] (Rejected x)"
| listing: "readdir fs d = Inr es \<Longrightarrow> walk_entries fs d es ps pr \<Longrightarrow> walk fs d ps pr"
| finished: "walk_entries fs d [] [] Resolved"
| skipped: "ignored (name e) \<Longrightarrow> walk_entries fs d rest ps pr \<Longrightarrow>
         walk_entries fs d (e # rest) ps pr"
| regular: "\<not> ignored (name e) \<Longrightarrow> \<not> isDirectory e \<Longrightarrow> walk_entries fs d rest ps pr \<Longrightarrow>
         walk_entries fs d (e # rest) (path_join d (name e) # ps) pr"
| failed: "\<not> ignored (name e) \<Longrightarrow> isDirectory e \<Longrightarrow>
         walk fs (path_join d (name e)) ps (Rejected x) \<Longrightarrow>
         walk_entries fs d (e # rest) (path_join d (name e) # ps) (Rejected x)"
| entered: "\<not> ignored (name e) \<Longrightarrow> isDirectory e \<Longrightarrow>
         walk fs (path_join d (name e)) ps Resolved \<Longrightarrow> walk_entries fs d rest ps' pr \<Longrightarrow>
         walk_entries fs d (e # rest) (path_join d (name e) # ps @ ps') pr"

code_pred walk .

section \<open>What the propagation can change\<close>

declare toggleDirectoryChildren.simps [simp del]
declare toggleDirectoryChildren_loop.simps [simp del]

lemma loop_Nil: "toggleDirectoryChildren_loop fs d c [] st = (Resolved, st)"
  by (simp add: toggleDirectoryChildren_loop.simps)

lemma loop_skip:
  "ignored (name e) \<Longrightarrow>
   toggleDirectoryChildren_loop fs d c (e # rest) st = toggleDirectoryChildren_loop fs d c rest st"
  by (simp add: toggleDirectoryChildren_loop.simps ignored_def)

lemma loop_file:
  "\<not> ignored (name e) \<Longrightarrow> \<not> isDirectory e \<Longrightarrow>
   toggleDirectoryChildren_loop fs d c (e # rest) st =
   toggleDirectoryChildren_loop fs d c rest (mark c (path_join d (name e)) st)"
  by (simp add: toggleDirectoryChildren_loop.simps ignored_def mark_def Let_def)

lemma loop_dir_rejected:
  "\<not> ignored (name e) \<Longrightarrow> isDirectory e \<Longrightarrow>
   toggleDirectoryChildren fs (path_join d (name e)) c (mark c (path_join d (name e)) st)
     = (Rejected x, st2) \<Longrightarrow>
   toggleDirectoryChildren_loop fs d c (e # rest) st = (Rejected x, st2)"
  by (simp add: toggleDirectoryChildren_loop.simps ignored_def mark_def Let_def)

lemma loop_dir_resolved:
  "\<not> ignored (name e) \<Longrightarrow> isDirectory e \<Longrightarrow>
   toggleDirectoryChildren fs (path_join d (name e)) c (mark c (path_join d (name e)) st)
     = (Resolved, st2) \<Longrightarrow>
   toggleDirectoryChildren_loop fs d c (e # rest) st = toggleDirectoryChildren_loop fs d c rest st2"
  by (simp add: toggleDirectoryChildren_loop.simps ignored_def mark_def Let_def)

lemma touched_refl: "touched c st st"
  by (simp add: touched_def)

lemma updateCheckState_idem: "updateCheckState c (updateCheckState c x) = updateCheckState c x"
  by (simp add: updateCheckState_def)

lemma touched_trans: "touched c st st1 \<Longrightarrow> touched c st1 st2 \<Longrightarrow> touched c st st2"
  unfolding touched_def by (metis updateCheckState_idem)

lemma touched_mark: "touched c st (mark c p st)"
  by (simp add: touched_def mark_def split: option.splits)

lemma toggleDirectoryChildren_touched:
  "touched c st (snd (toggleDirectoryChildren fs d c st))"
  "touched c st (snd (toggleDirectoryChildren_loop fs d c es st))"
proof (induction fs d c st and fs d c es st
    rule: toggleDirectoryChildren_toggleDirectoryChildren_loop.induct)
  case (1 fs dirPath checked st)
  then show ?case
    by (simp add: toggleDirectoryChildren.simps touched_refl split: sum.splits)
next
  case (2 fs dirPath checked st)
  then show ?case by (simp add: loop_Nil touched_refl)
next
  case (3 fs dirPath checked entry rest st)
  let ?p = "path_join dirPath (name entry)"
  let ?st1 = "mark checked ?p st"
  have s1: "touched checked st ?st1" by (rule touched_mark)
  show ?case
  proof (cases "ignored (name entry)")
    case True
    with 3(1) show ?thesis by (simp add: loop_skip ignored_def)
  next
    case False
    then have ni: "\<not> (name entry = ''node_modules'' \<or> name entry = ''.git'')"
      by (simp add: ignored_def)
    have m: "?st1 = (case map_of (items st) ?p of None \<Rightarrow> st
      | Some item \<Rightarrow> st\<lparr>objs := (objs st)(item := updateCheckState checked (objs st item))\<rparr>)"
      by (simp add: mark_def)
    show ?thesis
    proof (cases "isDirectory entry")
      case dir: True
      obtain pr st2 where r: "toggleDirectoryChildren fs ?p checked ?st1 = (pr, st2)"
        by (cases "toggleDirectoryChildren fs ?p checked ?st1")
      from 3(2)[OF ni refl m dir] r have s2: "touched checked ?st1 st2" by simp
      show ?thesis
      proof (cases pr)
        case Resolved
        from 3(3)[OF ni refl m dir r[symmetric] Resolved]
        have "touched checked st2 (snd (toggleDirectoryChildren_loop fs dirPath checked rest st2))" .
        with s1 s2 have "touched checked st (snd (toggleDirectoryChildren_loop fs dirPath checked rest st2))"
          by (blast intro: touched_trans)
        with False dir r Resolved show ?thesis
          by (simp add: loop_dir_resolved)
      next
        case (Rejected e)
        from s1 s2 have "touched checked st st2" by (rule touched_trans)
        with False dir r Rejected show ?thesis
          by (simp add: loop_dir_rejected)
      qed
    next
      case nd: False
      from 3(4)[OF ni refl m nd] s1
      have "touched checked st (snd (toggleDirectoryChildren_loop fs dirPath checked rest ?st1))"
        by (blast intro: touched_trans)
      with False nd show ?thesis
        by (simp add: loop_file)
    qed
  qed
qed

lemma toggleCheck_file:
  "collapsibleState (objs st item) = CollapsibleNone \<Longrightarrow>
   toggleCheck fs item st =
     \<lparr>raised = None, detached = None,
      post = st\<lparr>objs := (objs st)(item := updateCheckState (\<not> isChecked (objs st item)) (objs st item))\<rparr>\<rparr>"
  by (simp add: toggleCheck_def Let_def updateCheckState_def)

lemma toggleCheck_touched:
  "touched (\<not> isChecked (objs st item))
     (st\<lparr>objs := (objs st)(item := updateCheckState (\<not> isChecked (objs st item)) (objs st item))\<rparr>)
     (post (toggleCheck fs item st))"
proof -
  let ?n = "\<not> isChecked (objs st item)"
  let ?st1 = "st\<lparr>objs := (objs st)(item := updateCheckState ?n (objs st item))\<rparr>"
  show ?thesis
  proof (cases "collapsibleState (objs ?st1 item) \<noteq> CollapsibleNone")
    case True
    have "post (toggleCheck fs item st)
        = snd (toggleDirectoryChildren fs (filePath (objs ?st1 item)) ?n ?st1)"
      using True by (simp add: toggleCheck_def Let_def split: prod.splits)
    then show ?thesis by (simp only: toggleDirectoryChildren_touched(1))
  next
    case False
    then have "post (toggleCheck fs item st) = ?st1"
      by (simp add: toggleCheck_def Let_def)
    then show ?thesis by (simp only: touched_refl)
  qed
qed

lemma toggleCheck_flips:
  "isChecked (objs (post (toggleCheck fs item st)) item) = (\<not> isChecked (objs st item))"
  using toggleCheck_touched[of st item fs]
  by (auto simp: touched_def updateCheckState_def dest!: spec[of _ item])


section \<open>The example workspace, evaluated\<close>

lemma readdir_disk1_ws:
  "readdir disk1 [''ws''] =
     Inr [\<lparr>name = ''a.txt'', isDirectory = False\<rparr>, \<lparr>name = ''sub'', isDirectory = True\<rparr>,
          \<lparr>name = ''node_modules'', isDirectory = True\<rparr>]"
  by (simp add: readdir_def disk1_def)

lemma readdir_disk1_sub:
  "readdir disk1 [''ws'', ''sub''] = Inr [\<lparr>name = ''b.txt'', isDirectory = False\<rparr>]"
  by (simp add: readdir_def disk1_def)

lemma st_root_eq:
  "st_root =
     \<lparr>objs = (\<lambda>_. new_FileItem [] CollapsibleNone [] False)
        (0 := new_FileItem ''a.txt'' CollapsibleNone [''ws'', ''a.txt''] False,
         1 := new_FileItem ''sub'' Collapsed [''ws'', ''sub''] False),
      fresh = 2, items = [([''ws'', ''a.txt''], 0), ([''ws'', ''sub''], 1)],
      allChecked = False, workspaceRoot = Some [''ws'']\<rparr>"
  by (simp add: st_root_def getChildren_def getFilesInDirectory_def readdir_disk1_ws init_def
      alloc_def Map_get_def path_join_def Let_def numeral_2_eq_2)

lemma st_sub_eq:
  "st_sub =
     \<lparr>objs = (\<lambda>_. new_FileItem [] CollapsibleNone [] False)
        (0 := new_FileItem ''a.txt'' CollapsibleNone [''ws'', ''a.txt''] False,
         1 := new_FileItem ''sub'' Collapsed [''ws'', ''sub''] False,
         2 := new_FileItem ''b.txt'' CollapsibleNone [''ws'', ''sub'', ''b.txt''] False),
      fresh = 3,
      items = [([''ws'', ''a.txt''], 0), ([''ws'', ''sub''], 1), ([''ws'', ''sub'', ''b.txt''], 2)],
      allChecked = False, workspaceRoot = Some [''ws'']\<rparr>"
  by (simp add: st_sub_def st_root_eq getChildren_def getFilesInDirectory_def readdir_disk1_sub
      alloc_def Map_get_def path_join_def new_FileItem_def Let_def numeral_3_eq_3)

section \<open>Toggling a file\<close>

text \<open>
  C10: toggling an item whose collapsible state is \<open>None\<close> (a file) flips that item and
  nothing else: the map \<open>items\<close>, every other object, and the label, path and kind of
  every object stay as they were; no promise is made, so no directory is read, and the
  outcome is the same on every disk.
\<close>

theorem toggleCheck_file_only_item:
  assumes "collapsibleState (objs st item) = CollapsibleNone"
  shows "isChecked (objs (post (toggleCheck fs item st)) item) = (\<not> isChecked (objs st item))
    \<and> items (post (toggleCheck fs item st)) = items st
    \<and> (\<forall>r. r \<noteq> item \<longrightarrow> objs (post (toggleCheck fs item st)) r = objs st r)
    \<and> (\<forall>r. collapsibleState (objs (post (toggleCheck fs item st)) r) = collapsibleState (objs st r)
          \<and> filePath (objs (post (toggleCheck fs item st)) r) = filePath (objs st r)
          \<and> label (objs (post (toggleCheck fs item st)) r) = label (objs st r))
    \<and> fresh (post (toggleCheck fs item st)) = fresh st
    \<and> allChecked (post (toggleCheck fs item st)) = allChecked st
    \<and> workspaceRoot (post (toggleCheck fs item st)) = workspaceRoot st
    \<and> detached (toggleCheck fs item st) = None
    \<and> raised (toggleCheck fs item st) = None
    \<and> toggleCheck fs' item st = toggleCheck fs item st"
  by (simp add: toggleCheck_file[OF assms] updateCheckState_def)

theorem toggleCheck_file_only_item_witness:
  "collapsibleState (objs st_root 0) = CollapsibleNone
    \<and> isChecked (objs (post (toggleCheck disk1 0 st_root)) 0)
    \<and> items (post (toggleCheck disk1 0 st_root)) = items st_root
    \<and> objs (post (toggleCheck disk1 0 st_root)) 1 = objs st_root 1
    \<and> detached (toggleCheck disk1 0 st_root) = None
    \<and> toggleCheck (Dir False []) 0 st_root = toggleCheck disk1 0 st_root"
proof -
  have h: "collapsibleState (objs st_root 0) = CollapsibleNone"
    by (simp add: st_root_eq new_FileItem_def)
  have n: "\<not> isChecked (objs st_root 0)"
    by (simp add: st_root_eq new_FileItem_def)
  from toggleCheck_file_only_item[OF h, of disk1 "Dir False []"] h n show ?thesis
    by simp
qed

section \<open>Toggling twice\<close>

text \<open>
  C9: toggling an item twice in succession gives it back the checked value it had, whatever
  its kind and whatever the propagation to its descendants did in between (the disk may
  even differ between the two calls).
\<close>

theorem toggleCheck_twice_restores:
  "isChecked (objs (post (toggleCheck fs' item (post (toggleCheck fs item st)))) item)
     = isChecked (objs st item)"
  by (simp add: toggleCheck_flips)

theorem toggleCheck_twice_restores_witness:
  "isChecked (objs (post (toggleCheck disk1 1 (post (toggleCheck disk1 1 st_sub)))) 1)
     = isChecked (objs st_sub 1)"
  by (rule toggleCheck_twice_restores)


section \<open>Expanding\<close>

lemma map_of_Map_set: "map_of (Map_set k v m) = (map_of m)(k \<mapsto> v)"
  by (induction m) (auto simp: fun_eq_iff)

lemma Map_set_keys:
  "map fst (Map_set k v m) = (if k \<in> fst ` set m then map fst m else map fst m @ [k])"
proof (induction m)
  case Nil
  show ?case by simp
next
  case (Cons x m)
  obtain k' v' where x: "x = (k', v')" by (cases x)
  show ?case
  proof (cases "k' = k")
    case True
    then show ?thesis by (simp add: x)
  next
    case False
    with Cons show ?thesis by (simp add: x)
  qed
qed

lemma set_Map_set: "set (Map_set k v m) \<subseteq> insert (k, v) (set m)"
  by (induction m) (auto split: if_splits)

lemma expand_loop_skip:
  "\<not> listed e \<Longrightarrow>
   getFilesInDirectory_loop d (e # rest) acc st = getFilesInDirectory_loop d rest acc st"
  by (simp add: listed_def ignored_def)

lemma expand_loop_listed:
  "listed e \<Longrightarrow>
   getFilesInDirectory_loop d (e # rest) acc st =
   getFilesInDirectory_loop d rest (acc @ [fresh st]) (register d e st)"
  by (auto simp: listed_def ignored_def Let_def alloc_def register_def item_for_def
      known_checked_def Map_get_def split: option.splits)

declare getFilesInDirectory_loop.simps(2) [simp del]

lemma allocated_register: "allocated st \<Longrightarrow> allocated (register d e st)"
  using set_Map_set[of "path_join d (name e)" "fresh st" "items st"]
  by (fastforce simp: allocated_def register_def)

lemma known_checked_register:
  assumes "allocated st"
  shows "known_checked (register d e st) q = known_checked st q"
proof (cases "q = path_join d (name e)")
  case True
  then show ?thesis
    by (simp add: known_checked_def register_def map_of_Map_set item_for_def new_FileItem_def)
next
  case False
  show ?thesis
  proof (cases "map_of (items st) q")
    case None
    with False show ?thesis by (simp add: known_checked_def register_def map_of_Map_set)
  next
    case (Some r)
    then have "(q, r) \<in> set (items st)" by (rule map_of_SomeD)
    with assms have "r < fresh st" by (auto simp: allocated_def)
    with False Some show ?thesis by (simp add: known_checked_def register_def map_of_Map_set)
  qed
qed

lemma item_for_register:
  "allocated st \<Longrightarrow> item_for (register d e st) d' e' = item_for st d' e'"
  by (simp add: item_for_def known_checked_register)

lemma expand_loop:
  assumes "allocated st" and "getFilesInDirectory_loop d es acc st = (rs, st')"
  shows "allocated st' \<and> fresh st \<le> fresh st'
    \<and> (\<forall>r < fresh st. objs st' r = objs st r)
    \<and> (\<forall>q. known_checked st' q = known_checked st q)
    \<and> allChecked st' = allChecked st \<and> workspaceRoot st' = workspaceRoot st
    \<and> (\<exists>new. rs = acc @ new \<and> map (objs st') new = map (item_for st d) (filter listed es)
          \<and> (\<forall>r \<in> set new. fresh st \<le> r \<and> r < fresh st'))
    \<and> (\<forall>e \<in> set (filter listed es). \<exists>r. map_of (items st') (path_join d (name e)) = Some r
          \<and> fresh st \<le> r \<and> r < fresh st' \<and> r \<in> set rs)
    \<and> (\<forall>q. q \<notin> (\<lambda>e. path_join d (name e)) ` set (filter listed es)
          \<longrightarrow> map_of (items st') q = map_of (items st) q)"
  using assms
proof (induction es arbitrary: acc st)
  case Nil
  then show ?case by simp
next
  case (Cons e rest)
  show ?case
  proof (cases "listed e")
    case False
    with Cons.prems have "getFilesInDirectory_loop d rest acc st = (rs, st')"
      by (simp add: expand_loop_skip)
    from Cons.IH[OF Cons.prems(1) this] False show ?thesis by simp
  next
    case lst: True
    let ?st1 = "register d e st"
    have a1: "allocated ?st1" using Cons.prems(1) by (rule allocated_register)
    from lst Cons.prems have run: "getFilesInDirectory_loop d rest (acc @ [fresh st]) ?st1 = (rs, st')"
      by (simp add: expand_loop_listed)
    note ih = Cons.IH[OF a1 run]
    have f1: "fresh ?st1 = Suc (fresh st)" by (simp add: register_def)
    have o1: "objs ?st1 = (objs st)(fresh st := item_for st d e)" by (simp add: register_def)
    from ih obtain new where new: "rs = (acc @ [fresh st]) @ new"
      "map (objs st') new = map (item_for ?st1 d) (filter listed rest)"
      "\<forall>r \<in> set new. fresh ?st1 \<le> r \<and> r < fresh st'"
      by blast
    have keep: "\<forall>r < fresh ?st1. objs st' r = objs ?st1 r" using ih by blast
    have le: "fresh ?st1 \<le> fresh st'" using ih by blast
    have c1: "allocated st'" using ih by blast
    have c2: "fresh st \<le> fresh st'" using le f1 by simp
    have c3: "\<forall>r < fresh st. objs st' r = objs st r" using keep f1 o1 by simp
    have c4: "\<forall>q. known_checked st' q = known_checked st q"
      using ih known_checked_register[OF Cons.prems(1)] by simp
    have c5: "allChecked st' = allChecked st \<and> workspaceRoot st' = workspaceRoot st"
      using ih by (simp add: register_def)
    have here: "objs st' (fresh st) = item_for st d e" using keep f1 o1 by simp
    have c6: "\<exists>new'. rs = acc @ new' \<and> map (objs st') new' = map (item_for st d) (filter listed (e # rest))
          \<and> (\<forall>r \<in> set new'. fresh st \<le> r \<and> r < fresh st')"
    proof (intro exI[of _ "fresh st # new"] conjI)
      show "rs = acc @ fresh st # new" using new(1) by simp
      show "map (objs st') (fresh st # new) = map (item_for st d) (filter listed (e # rest))"
        using lst here new(2) item_for_register[OF Cons.prems(1)] by simp
      show "\<forall>r \<in> set (fresh st # new). fresh st \<le> r \<and> r < fresh st'"
        using new(3) f1 le by auto
    qed
    have c7: "\<forall>e' \<in> set (filter listed (e # rest)). \<exists>r. map_of (items st') (path_join d (name e')) = Some r
          \<and> fresh st \<le> r \<and> r < fresh st' \<and> r \<in> set rs"
    proof
      fix e' assume e': "e' \<in> set (filter listed (e # rest))"
      show "\<exists>r. map_of (items st') (path_join d (name e')) = Some r
          \<and> fresh st \<le> r \<and> r < fresh st' \<and> r \<in> set rs"
      proof (cases "e' \<in> set (filter listed rest)")
        case True
        with ih obtain r where "map_of (items st') (path_join d (name e')) = Some r"
          "fresh ?st1 \<le> r" "r < fresh st'" "r \<in> set rs" by blast
        with f1 show ?thesis by auto
      next
        case False
        with e' lst have ee: "e' = e" by auto
        let ?p = "path_join d (name e)"
        show ?thesis
        proof (cases "?p \<in> (\<lambda>e. path_join d (name e)) ` set (filter listed rest)")
          case True
          then obtain e2 where "e2 \<in> set (filter listed rest)" "path_join d (name e2) = ?p"
            by auto
          with ih obtain r where "map_of (items st') ?p = Some r"
            "fresh ?st1 \<le> r" "r < fresh st'" "r \<in> set rs" by metis
          with f1 ee show ?thesis by auto
        next
          case nodup: False
          with ih have "map_of (items st') ?p = map_of (items ?st1) ?p" by blast
          then have "map_of (items st') ?p = Some (fresh st)"
            by (simp add: register_def map_of_Map_set)
          moreover have "fresh st \<in> set rs" using new(1) by simp
          moreover have "fresh st < fresh st'" using le f1 by simp
          ultimately show ?thesis using ee by simp
        qed
      qed
    qed
    have c8: "\<forall>q. q \<notin> (\<lambda>e. path_join d (name e)) ` set (filter listed (e # rest))
          \<longrightarrow> map_of (items st') q = map_of (items st) q"
    proof (intro allI impI)
      fix q assume q: "q \<notin> (\<lambda>e. path_join d (name e)) ` set (filter listed (e # rest))"
      with lst have "q \<noteq> path_join d (name e)"
        and "q \<notin> (\<lambda>e. path_join d (name e)) ` set (filter listed rest)" by auto
      with ih have "map_of (items st') q = map_of (items ?st1) q" by blast
      with \<open>q \<noteq> path_join d (name e)\<close> show "map_of (items st') q = map_of (items st) q"
        by (simp add: register_def map_of_Map_set)
    qed
    from c1 c2 c3 c4 c5 c6 c7 c8 show ?thesis by blast
  qed
qed


lemma expand_result:
  assumes "allocated st" and "readdir fs D = Inr es"
  obtains rs st' where "getFilesInDirectory fs D st = (Inr rs, st')"
    and "map (objs st') rs = map (item_for st D) (filter listed es)"
    and "allocated st'" and "\<forall>q. known_checked st' q = known_checked st q"
    and "\<forall>e \<in> set (filter listed es). \<exists>r \<in> set rs. map_of (items st') (path_join D (name e)) = Some r"
    and "allChecked st' = allChecked st" and "workspaceRoot st' = workspaceRoot st"
proof -
  obtain rs st' where run: "getFilesInDirectory_loop D es [] st = (rs, st')"
    by (cases "getFilesInDirectory_loop D es [] st")
  note inv = expand_loop[OF assms(1) run]
  have "getFilesInDirectory fs D st = (Inr rs, st')"
    by (simp add: getFilesInDirectory_def assms(2) run)
  moreover have "map (objs st') rs = map (item_for st D) (filter listed es)"
    using inv by auto
  moreover have "\<forall>e \<in> set (filter listed es). \<exists>r \<in> set rs. map_of (items st') (path_join D (name e)) = Some r"
    using inv by blast
  ultimately show ?thesis using inv that by blast
qed

lemma map_field:
  "map (objs st') rs = map g es \<Longrightarrow> map (\<lambda>r. f (objs st' r)) rs = map (\<lambda>e. f (g e)) es"
proof -
  assume "map (objs st') rs = map g es"
  then have "map f (map (objs st') rs) = map f (map g es)" by simp
  then show ?thesis by (simp add: comp_def)
qed

text \<open>
  C4: in a reachable state, expanding a readable directory \<open>D\<close> returns one node per
  listed entry, in listing order, with the entry's name, path and kind; the node is checked
  exactly if the map already held a checked node under that path (so a node for an absent
  path is unchecked, and a present one keeps its value); every listed path is registered in
  the map; and expanding \<open>D\<close> again returns nodes with the same checked values.
\<close>

theorem getFilesInDirectory_nodes:
  assumes "allocated st" and "readdir fs D = Inr es"
  shows "\<exists>rs st'. getFilesInDirectory fs D st = (Inr rs, st')
     \<and> map (\<lambda>r. label (objs st' r)) rs = map name (filter listed es)
     \<and> map (\<lambda>r. filePath (objs st' r)) rs = map (\<lambda>e. path_join D (name e)) (filter listed es)
     \<and> map (\<lambda>r. collapsibleState (objs st' r)) rs
         = map (\<lambda>e. if isDirectory e then Collapsed else CollapsibleNone) (filter listed es)
     \<and> map (\<lambda>r. isChecked (objs st' r)) rs
         = map (\<lambda>e. case map_of (items st) (path_join D (name e)) of
                       None \<Rightarrow> False | Some r0 \<Rightarrow> isChecked (objs st r0)) (filter listed es)
     \<and> (\<forall>e \<in> set (filter listed es).
           \<exists>r \<in> set rs. map_of (items st') (path_join D (name e)) = Some r)
     \<and> (\<exists>rs2 st2. getFilesInDirectory fs D st' = (Inr rs2, st2)
           \<and> map (\<lambda>r. isChecked (objs st2 r)) rs2 = map (\<lambda>r. isChecked (objs st' r)) rs)"
proof -
  from expand_result[OF assms] obtain rs st' where
    run: "getFilesInDirectory fs D st = (Inr rs, st')"
    and nodes: "map (objs st') rs = map (item_for st D) (filter listed es)"
    and al: "allocated st'" and kc: "\<forall>q. known_checked st' q = known_checked st q"
    and reg: "\<forall>e \<in> set (filter listed es). \<exists>r \<in> set rs. map_of (items st') (path_join D (name e)) = Some r"
    by metis
  from expand_result[OF al assms(2)] obtain rs2 st2 where
    run2: "getFilesInDirectory fs D st' = (Inr rs2, st2)"
    and nodes2: "map (objs st2) rs2 = map (item_for st' D) (filter listed es)"
    by metis
  have "item_for st' D = item_for st D" using kc by (simp add: item_for_def fun_eq_iff)
  with nodes nodes2 have same: "map (objs st2) rs2 = map (objs st') rs" by simp
  have again: "map (\<lambda>r. isChecked (objs st2 r)) rs2 = map (\<lambda>r. isChecked (objs st' r)) rs"
    using map_field[OF same, of isChecked] by simp
  have l1: "map (\<lambda>r. label (objs st' r)) rs = map name (filter listed es)"
    using map_field[OF nodes, of label] by (simp add: item_for_def new_FileItem_def)
  have l2: "map (\<lambda>r. filePath (objs st' r)) rs = map (\<lambda>e. path_join D (name e)) (filter listed es)"
    using map_field[OF nodes, of filePath] by (simp add: item_for_def new_FileItem_def)
  have l3: "map (\<lambda>r. collapsibleState (objs st' r)) rs
         = map (\<lambda>e. if isDirectory e then Collapsed else CollapsibleNone) (filter listed es)"
    using map_field[OF nodes, of collapsibleState] by (simp add: item_for_def new_FileItem_def)
  have l4: "map (\<lambda>r. isChecked (objs st' r)) rs
         = map (\<lambda>e. case map_of (items st) (path_join D (name e)) of
                       None \<Rightarrow> False | Some r0 \<Rightarrow> isChecked (objs st r0)) (filter listed es)"
    using map_field[OF nodes, of isChecked]
    by (simp add: item_for_def new_FileItem_def known_checked_def)
  from run l1 l2 l3 l4 reg run2 again show ?thesis by blast
qed


lemma st_a_eq:
  "st_a =
     \<lparr>objs = (\<lambda>_. new_FileItem [] CollapsibleNone [] False)
        (0 := new_FileItem ''a.txt'' CollapsibleNone [''ws'', ''a.txt''] True,
         1 := new_FileItem ''sub'' Collapsed [''ws'', ''sub''] False),
      fresh = 2, items = [([''ws'', ''a.txt''], 0), ([''ws'', ''sub''], 1)],
      allChecked = False, workspaceRoot = Some [''ws'']\<rparr>"
  by (simp add: st_a_def toggleCheck_def st_root_eq Let_def new_FileItem_def updateCheckState_def
      fun_upd_twist)

lemma allocated_init: "allocated (init root)"
  by (simp add: allocated_def init_def)

lemma allocated_getFilesInDirectory:
  "allocated st \<Longrightarrow> allocated (snd (getFilesInDirectory fs D st))"
proof (cases "readdir fs D")
  case (Inl e)
  assume "allocated st"
  with Inl show ?thesis by (simp add: getFilesInDirectory_def)
next
  case (Inr es)
  assume "allocated st"
  from expand_result[OF this Inr] show ?thesis by (metis snd_conv)
qed

lemma allocated_toggleCheck: "allocated st \<Longrightarrow> allocated (post (toggleCheck fs item st))"
  using toggleCheck_touched[of st item fs] by (simp add: allocated_def touched_def)

theorem getFilesInDirectory_nodes_witness:
  "allocated st_a
   \<and> readdir disk1 [''ws''] =
       Inr [\<lparr>name = ''a.txt'', isDirectory = False\<rparr>, \<lparr>name = ''sub'', isDirectory = True\<rparr>,
            \<lparr>name = ''node_modules'', isDirectory = True\<rparr>]
   \<and> (\<exists>rs st'. getFilesInDirectory disk1 [''ws''] st_a = (Inr rs, st')
         \<and> map (\<lambda>r. label (objs st' r)) rs = [''a.txt'', ''sub'']
         \<and> map (\<lambda>r. isChecked (objs st' r)) rs = [True, False]
         \<and> (\<exists>rs2 st2. getFilesInDirectory disk1 [''ws''] st' = (Inr rs2, st2)
               \<and> map (\<lambda>r. isChecked (objs st2 r)) rs2 = [True, False]))"
proof -
  have h1: "allocated st_a" by (simp add: allocated_def st_a_eq)
  note h2 = readdir_disk1_ws
  from getFilesInDirectory_nodes[OF h1 h2] obtain rs st' rs2 st2 where
    run: "getFilesInDirectory disk1 [''ws''] st_a = (Inr rs, st')"
    and lbl: "map (\<lambda>r. label (objs st' r)) rs = map name (filter listed
        [\<lparr>name = ''a.txt'', isDirectory = False\<rparr>, \<lparr>name = ''sub'', isDirectory = True\<rparr>,
         \<lparr>name = ''node_modules'', isDirectory = True\<rparr>])"
    and chk: "map (\<lambda>r. isChecked (objs st' r)) rs
         = map (\<lambda>e. case map_of (items st_a) (path_join [''ws''] (name e)) of
                       None \<Rightarrow> False | Some r0 \<Rightarrow> isChecked (objs st_a r0)) (filter listed
        [\<lparr>name = ''a.txt'', isDirectory = False\<rparr>, \<lparr>name = ''sub'', isDirectory = True\<rparr>,
         \<lparr>name = ''node_modules'', isDirectory = True\<rparr>])"
    and run2: "getFilesInDirectory disk1 [''ws''] st' = (Inr rs2, st2)"
    and again: "map (\<lambda>r. isChecked (objs st2 r)) rs2 = map (\<lambda>r. isChecked (objs st' r)) rs"
    by blast
  have lbl': "map (\<lambda>r. label (objs st' r)) rs = [''a.txt'', ''sub'']"
    using lbl by (simp add: listed_def ignored_def)
  have chk': "map (\<lambda>r. isChecked (objs st' r)) rs = [True, False]"
    using chk by (simp add: listed_def ignored_def st_a_eq path_join_def new_FileItem_def)
  from h1 h2 run lbl' chk' run2 again show ?thesis by simp
qed

section \<open>Toggle all\<close>

lemma toggleAllFiles_loop_at:
  "toggleAllFiles_loop m c h r = (if r \<in> snd ` set m then updateCheckState c (h r) else h r)"
proof (induction m arbitrary: h)
  case Nil
  show ?case by simp
next
  case (Cons x m)
  obtain p i where x: "x = (p, i)" by (cases x)
  show ?case
    unfolding x toggleAllFiles_loop.simps Cons.IH
    by (simp add: updateCheckState_idem)
qed

lemma toggleAllFiles_eq:
  "toggleAllFiles st =
     (InformationMessage (if allChecked st then ''All files deselected'' else ''All files selected''),
      st\<lparr>allChecked := \<not> allChecked st,
         objs := toggleAllFiles_loop (items st) (\<not> allChecked st) (objs st)\<rparr>)"
  by (simp add: toggleAllFiles_def Let_def)

lemma allocated_toggleAllFiles: "allocated st \<Longrightarrow> allocated (snd (toggleAllFiles st))"
  by (simp add: toggleAllFiles_eq allocated_def)

text \<open>
  C5: \<^verbatim>\<open>toggleAllFiles\<close> always returns; it flips \<open>allChecked\<close> and gives the new flag
  value to every object the map refers to, and to no other object; the map itself is
  unchanged. From the flag \<open>False\<close>, one call checks every known node and a second call
  unchecks them all. A node that a later expansion creates for a path that was not in the
  map is unchecked, whatever the flag now says.
\<close>

theorem toggleAllFiles_known_nodes:
  "\<exists>msg st1 msg2 st2. toggleAllFiles st = (msg, st1) \<and> toggleAllFiles st1 = (msg2, st2)
     \<and> allChecked st1 = (\<not> allChecked st)
     \<and> items st1 = items st \<and> fresh st1 = fresh st \<and> workspaceRoot st1 = workspaceRoot st
     \<and> (\<forall>(p, r) \<in> set (items st). isChecked (objs st1 r) = allChecked st1)
     \<and> (\<forall>r. r \<notin> snd ` set (items st) \<longrightarrow> objs st1 r = objs st r)
     \<and> (\<not> allChecked st \<longrightarrow>
           (\<forall>(p, r) \<in> set (items st). isChecked (objs st1 r))
         \<and> (\<forall>(p, r) \<in> set (items st). \<not> isChecked (objs st2 r)))
     \<and> (\<forall>fs D es. allocated st \<and> readdir fs D = Inr es \<longrightarrow>
           (\<exists>rs st'. getFilesInDirectory fs D st1 = (Inr rs, st')
              \<and> (\<forall>r \<in> set rs. map_of (items st) (filePath (objs st' r)) = None
                    \<longrightarrow> \<not> isChecked (objs st' r))))"
proof -
  let ?st1 = "snd (toggleAllFiles st)"
  let ?st2 = "snd (toggleAllFiles ?st1)"
  have a: "allChecked ?st1 = (\<not> allChecked st)" by (simp add: toggleAllFiles_eq)
  have b: "items ?st1 = items st \<and> fresh ?st1 = fresh st \<and> workspaceRoot ?st1 = workspaceRoot st"
    by (simp add: toggleAllFiles_eq)
  have c: "\<forall>(p, r) \<in> set (items st). isChecked (objs ?st1 r) = allChecked ?st1"
    by (force simp: toggleAllFiles_eq toggleAllFiles_loop_at updateCheckState_def)
  have d: "\<forall>r. r \<notin> snd ` set (items st) \<longrightarrow> objs ?st1 r = objs st r"
    by (simp add: toggleAllFiles_eq toggleAllFiles_loop_at)
  have e: "\<forall>(p, r) \<in> set (items st). isChecked (objs ?st2 r) = allChecked st"
    by (force simp: toggleAllFiles_eq toggleAllFiles_loop_at updateCheckState_def)
  have f: "\<exists>rs st'. getFilesInDirectory fs D ?st1 = (Inr rs, st')
              \<and> (\<forall>r \<in> set rs. map_of (items st) (filePath (objs st' r)) = None
                    \<longrightarrow> \<not> isChecked (objs st' r))"
    if al: "allocated st" and rd: "readdir fs D = Inr es" for fs D es
  proof -
    from al have "allocated ?st1" by (rule allocated_toggleAllFiles)
    from expand_result[OF this rd] obtain rs st' where
      run: "getFilesInDirectory fs D ?st1 = (Inr rs, st')"
      and nodes: "map (objs st') rs = map (item_for ?st1 D) (filter listed es)"
      by metis
    have "\<not> isChecked (objs st' r)"
      if "r \<in> set rs" and "map_of (items st) (filePath (objs st' r)) = None" for r
    proof -
      from that(1) have "objs st' r \<in> set (map (objs st') rs)" by simp
      with nodes obtain e where "objs st' r = item_for ?st1 D e" by auto
      with that(2) b show ?thesis
        by (simp add: item_for_def new_FileItem_def known_checked_def)
    qed
    with run show ?thesis by blast
  qed
  show ?thesis
    apply (rule exI[of _ "fst (toggleAllFiles st)"], rule exI[of _ ?st1])
    apply (rule exI[of _ "fst (toggleAllFiles ?st1)"], rule exI[of _ ?st2])
    using a b c d e f by auto
qed


theorem toggleAllFiles_known_nodes_witness:
  "\<not> allChecked st_root \<and> allocated st_root
   \<and> readdir disk1 [''ws'', ''sub''] = Inr [\<lparr>name = ''b.txt'', isDirectory = False\<rparr>]
   \<and> (\<exists>msg st1 msg2 st2. toggleAllFiles st_root = (msg, st1) \<and> toggleAllFiles st1 = (msg2, st2)
         \<and> allChecked st1 \<and> isChecked (objs st1 0) \<and> isChecked (objs st1 1)
         \<and> \<not> isChecked (objs st2 0) \<and> \<not> isChecked (objs st2 1)
         \<and> objs st1 2 = objs st_root 2
         \<and> (\<exists>rs st'. getFilesInDirectory disk1 [''ws'', ''sub''] st1 = (Inr rs, st')
               \<and> (\<forall>r \<in> set rs. map_of (items st_root) (filePath (objs st' r)) = None
                     \<longrightarrow> \<not> isChecked (objs st' r))))"
proof -
  have h1: "\<not> allChecked st_root" by (simp add: st_root_eq)
  have h2: "allocated st_root" by (simp add: allocated_def st_root_eq)
  note h3 = readdir_disk1_sub
  have it: "items st_root = [([''ws'', ''a.txt''], 0), ([''ws'', ''sub''], 1)]"
    by (simp add: st_root_eq)
  from toggleAllFiles_known_nodes[of st_root] obtain msg st1 msg2 st2 where
    r1: "toggleAllFiles st_root = (msg, st1)" and r2: "toggleAllFiles st1 = (msg2, st2)"
    and fl: "allChecked st1 = (\<not> allChecked st_root)"
    and others: "\<forall>r. r \<notin> snd ` set (items st_root) \<longrightarrow> objs st1 r = objs st_root r"
    and both: "\<not> allChecked st_root \<longrightarrow>
           (\<forall>(p, r) \<in> set (items st_root). isChecked (objs st1 r))
         \<and> (\<forall>(p, r) \<in> set (items st_root). \<not> isChecked (objs st2 r))"
    and later: "\<forall>fs D es. allocated st_root \<and> readdir fs D = Inr es \<longrightarrow>
           (\<exists>rs st'. getFilesInDirectory fs D st1 = (Inr rs, st')
              \<and> (\<forall>r \<in> set rs. map_of (items st_root) (filePath (objs st' r)) = None
                    \<longrightarrow> \<not> isChecked (objs st' r)))"
    by blast
  from both h1 it have c: "isChecked (objs st1 0) \<and> isChecked (objs st1 1)
      \<and> \<not> isChecked (objs st2 0) \<and> \<not> isChecked (objs st2 1)" by simp
  from others it have o: "objs st1 2 = objs st_root 2" by simp
  from later h2 h3 have l: "\<exists>rs st'. getFilesInDirectory disk1 [''ws'', ''sub''] st1 = (Inr rs, st')
               \<and> (\<forall>r \<in> set rs. map_of (items st_root) (filePath (objs st' r)) = None
                     \<longrightarrow> \<not> isChecked (objs st' r))" by blast
  from h1 h2 h3 r1 r2 fl c o l show ?thesis by blast
qed


section \<open>Generating\<close>

lemma getCheckedFiles_loop_eq:
  "getCheckedFiles_loop m h acc
     = acc @ map fst (filter (\<lambda>(p, item). isChecked (h item) \<and> collapsibleState (h item) = CollapsibleNone) m)"
  by (induction m h acc rule: getCheckedFiles_loop.induct) simp_all

lemma getCheckedFiles_eq: "getCheckedFiles st = map fst (filter (selected st) (items st))"
  by (simp add: getCheckedFiles_def getCheckedFiles_loop_eq selected_def)

lemma generateFile_loop_ok:
  "\<forall>f \<in> set files. \<exists>c. readFile fs f = Inr c \<Longrightarrow>
   generateFile_loop fs root files out rd = (Inr (out @ concat (map (block fs root) files)), rd @ files)"
  by (induction files arbitrary: out rd) (auto simp: block_def)

lemma generateFile_loop_fail:
  "\<forall>g \<in> set pre. \<exists>c. readFile fs g = Inr c \<Longrightarrow> readFile fs f = Inl e \<Longrightarrow>
   generateFile_loop fs root (pre @ f # suf) out rd = (Inl e, rd @ pre @ [f])"
  by (induction pre arbitrary: out rd) auto

lemma readFile_error_path: "readFile fs f = Inl e \<Longrightarrow> \<exists>c. e = IOError c f"
  by (auto simp: readFile_def split: option.splits fsnode.splits if_splits)

lemma showInputBox_Some: "showInputBox t = Some v \<Longrightarrow> v \<noteq> [] \<and> CHR ''.'' \<notin> set v \<and> t = Some v"
  by (auto simp: showInputBox_def validateInput_def split: option.splits if_splits)

text \<open>
  C6: when no file is checked, \<^verbatim>\<open>generateFile\<close> shows the warning
  \<^verbatim>\<open>No files selected!\<close> (a warning, where an I/O failure shows an error message), asks
  for no name, reads and writes nothing, and leaves the provider as it was.
\<close>

theorem generateFile_no_selection:
  assumes "getCheckedFiles st = []"
  shows "generateFile fs ans st =
           (\<lparr>shown = [WarningMessage ''No files selected!''], reads = [], written = None,
             opened = None, rejected = None\<rparr>, st)"
  using assms by (simp add: generateFile_def quiet_def)

theorem generateFile_no_selection_witness:
  "getCheckedFiles st_root = []
   \<and> generateFile disk1 typed_out st_root =
           (\<lparr>shown = [WarningMessage ''No files selected!''], reads = [], written = None,
             opened = None, rejected = None\<rparr>, st_root)"
proof -
  have h: "getCheckedFiles st_root = []"
    by (simp add: getCheckedFiles_def st_root_eq new_FileItem_def)
  from generateFile_no_selection[OF h, of disk1 typed_out] h show ?thesis by simp
qed

text \<open>
  C7: when the user has given a name and \<open>f\<close> is the first checked file that cannot be
  read, \<^verbatim>\<open>generateFile\<close> stops there: the files read are those up to and including \<open>f\<close>
  and none after it, the error message carries the error of reading \<open>f\<close> (an I/O error
  on the path \<open>f\<close>), nothing is written and nothing is opened.
\<close>

theorem generateFile_read_failure:
  assumes "getCheckedFiles st = pre @ f # suf"
    and "\<forall>g \<in> set pre. \<exists>c. readFile fs g = Inr c"
    and "readFile fs f = Inl e"
    and "showInputBox (typed ans) = Some fileName"
    and "workspaceRoot st = Some root"
  shows "generateFile fs ans st =
           (\<lparr>shown = [ErrorMessage (''Error generating file: '' @ error_message e)],
             reads = pre @ [f], written = None, opened = None, rejected = None\<rparr>, st)
         \<and> (\<exists>c. e = IOError c f)"
  using assms showInputBox_Some[OF assms(4)] readFile_error_path[OF assms(3)]
  by (simp add: generateFile_def quiet_def generateFile_loop_fail[where rd = "[]", simplified])

text \<open>
  C8: when every checked file can be read, the name was given and the write succeeds, the
  text written to \<^verbatim>\<open>fileName.txt\<close> under the workspace root is the concatenation, in the
  order of \<^verbatim>\<open>getCheckedFiles\<close>, of one block per file: the line \<^verbatim>\<open>// File: \<close> with the
  path relative to the workspace root, the content, and two newlines. \<^verbatim>\<open>getCheckedFiles\<close>
  lists, in the order of the map, the paths whose object is checked and is a file.
\<close>

theorem generateFile_document:
  assumes "getCheckedFiles st \<noteq> []"
    and "\<forall>f \<in> set (getCheckedFiles st). \<exists>c. readFile fs f = Inr c"
    and "showInputBox (typed ans) = Some fileName"
    and "workspaceRoot st = Some root"
    and "writeError ans = None"
  shows "written (fst (generateFile fs ans st)) =
           Some (path_join root (fileName @ ''.txt''),
                 concat (map (\<lambda>file. ''// File: '' @ path_relative root file @ [newline]
                                @ (case readFile fs file of Inl e \<Rightarrow> [] | Inr content \<Rightarrow> content)
                                @ [newline, newline])
                          (getCheckedFiles st)))
         \<and> reads (fst (generateFile fs ans st)) = getCheckedFiles st
         \<and> getCheckedFiles st
             = map fst (filter (\<lambda>(p, item). isChecked (objs st item)
                                  \<and> collapsibleState (objs st item) = CollapsibleNone) (items st))"
  using assms showInputBox_Some[OF assms(3)]
  by (simp add: generateFile_def quiet_def Let_def
      generateFile_loop_ok[where rd = "[]" and out = "[]", simplified] block_def[abs_def]
      getCheckedFiles_eq selected_def)


lemma readdir_disk2_ws:
  "readdir disk2 [''ws''] =
     Inr [\<lparr>name = ''proj'', isDirectory = True\<rparr>, \<lparr>name = ''q.txt'', isDirectory = False\<rparr>,
          \<lparr>name = ''p.txt'', isDirectory = False\<rparr>]"
  by (simp add: readdir_def disk2_def)

lemma readdir_disk2_proj:
  "readdir disk2 [''ws'', ''proj''] =
     Inr [\<lparr>name = ''a.txt'', isDirectory = False\<rparr>, \<lparr>name = ''secret'', isDirectory = True\<rparr>,
          \<lparr>name = ''z.txt'', isDirectory = False\<rparr>]"
  by (simp add: readdir_def disk2_def)

lemma readdir_disk2_secret:
  "readdir disk2 [''ws'', ''proj'', ''secret''] = Inl (IOError EACCES [''ws'', ''proj'', ''secret''])"
  by (simp add: readdir_def disk2_def)

lemma st2_proj_eq:
  "st2_proj =
     \<lparr>objs = (\<lambda>_. new_FileItem [] CollapsibleNone [] False)
        (0 := new_FileItem ''proj'' Collapsed [''ws'', ''proj''] False,
         1 := new_FileItem ''q.txt'' CollapsibleNone [''ws'', ''q.txt''] False,
         2 := new_FileItem ''p.txt'' CollapsibleNone [''ws'', ''p.txt''] False,
         3 := new_FileItem ''a.txt'' CollapsibleNone [''ws'', ''proj'', ''a.txt''] False,
         4 := new_FileItem ''secret'' Collapsed [''ws'', ''proj'', ''secret''] False,
         5 := new_FileItem ''z.txt'' CollapsibleNone [''ws'', ''proj'', ''z.txt''] False),
      fresh = 6,
      items = [([''ws'', ''proj''], 0), ([''ws'', ''q.txt''], 1), ([''ws'', ''p.txt''], 2),
               ([''ws'', ''proj'', ''a.txt''], 3), ([''ws'', ''proj'', ''secret''], 4),
               ([''ws'', ''proj'', ''z.txt''], 5)],
      allChecked = False, workspaceRoot = Some [''ws'']\<rparr>"
  by (simp add: st2_proj_def getChildren_def getFilesInDirectory_def readdir_disk2_ws
      readdir_disk2_proj init_def alloc_def Map_get_def path_join_def Let_def new_FileItem_def
      getFilesInDirectory_loop.simps eval_nat_numeral)

lemma st2_all_checked:
  "getCheckedFiles st2_all =
     [[''ws'', ''q.txt''], [''ws'', ''p.txt''], [''ws'', ''proj'', ''a.txt''], [''ws'', ''proj'', ''z.txt'']]"
  by (simp add: st2_all_def toggleAllFiles_eq st2_proj_eq getCheckedFiles_def
      new_FileItem_def updateCheckState_def)

theorem generateFile_read_failure_witness:
  "getCheckedFiles st2_all
     = [[''ws'', ''q.txt'']] @ [''ws'', ''p.txt''] # [[''ws'', ''proj'', ''a.txt''], [''ws'', ''proj'', ''z.txt'']]
   \<and> readFile disk2 [''ws'', ''q.txt''] = Inr ''Q''
   \<and> readFile disk2 [''ws'', ''p.txt''] = Inl (IOError EACCES [''ws'', ''p.txt''])
   \<and> showInputBox (typed typed_out) = Some ''out''
   \<and> workspaceRoot st2_all = Some [''ws'']
   \<and> generateFile disk2 typed_out st2_all =
        (\<lparr>shown = [ErrorMessage ''Error generating file: EACCES: permission denied, /ws/p.txt''],
          reads = [[''ws'', ''q.txt''], [''ws'', ''p.txt'']], written = None, opened = None,
          rejected = None\<rparr>, st2_all)"
proof -
  have h1: "getCheckedFiles st2_all
     = [[''ws'', ''q.txt'']] @ [''ws'', ''p.txt''] # [[''ws'', ''proj'', ''a.txt''], [''ws'', ''proj'', ''z.txt'']]"
    by (simp add: st2_all_checked)
  have h2: "\<forall>g \<in> set [[''ws'', ''q.txt'']]. \<exists>c. readFile disk2 g = Inr c"
    by (simp add: readFile_def disk2_def)
  have h3: "readFile disk2 [''ws'', ''p.txt''] = Inl (IOError EACCES [''ws'', ''p.txt''])"
    by (simp add: readFile_def disk2_def)
  have h4: "showInputBox (typed typed_out) = Some ''out''"
    by (simp add: showInputBox_def validateInput_def typed_out_def)
  have h5: "workspaceRoot st2_all = Some [''ws'']"
    by (simp add: st2_all_def toggleAllFiles_eq st2_proj_eq)
  have q: "readFile disk2 [''ws'', ''q.txt''] = Inr ''Q''"
    by (simp add: readFile_def disk2_def)
  from generateFile_read_failure[OF h1 h2 h3 h4 h5] h1 q h3 h4 h5 show ?thesis
    by simp
qed

lemma st_sel_eq:
  "st_sel =
     \<lparr>objs = (\<lambda>_. new_FileItem [] CollapsibleNone [] False)
        (0 := new_FileItem ''a.txt'' CollapsibleNone [''ws'', ''a.txt''] True,
         1 := new_FileItem ''sub'' Collapsed [''ws'', ''sub''] True,
         2 := new_FileItem ''b.txt'' CollapsibleNone [''ws'', ''sub'', ''b.txt''] True),
      fresh = 3,
      items = [([''ws'', ''a.txt''], 0), ([''ws'', ''sub''], 1), ([''ws'', ''sub'', ''b.txt''], 2)],
      allChecked = False, workspaceRoot = Some [''ws'']\<rparr>"
  by (simp add: st_sel_def toggleCheck_def st_sub_eq Let_def new_FileItem_def updateCheckState_def
      toggleDirectoryChildren.simps toggleDirectoryChildren_loop.simps readdir_disk1_sub
      path_join_def fun_upd_twist)

theorem generateFile_document_witness:
  "getCheckedFiles st_sel \<noteq> []
   \<and> readFile disk1 [''ws'', ''a.txt''] = Inr ''X''
   \<and> readFile disk1 [''ws'', ''sub'', ''b.txt''] = Inr ''Y''
   \<and> showInputBox (typed typed_out) = Some ''out''
   \<and> workspaceRoot st_sel = Some [''ws'']
   \<and> writeError typed_out = None
   \<and> getCheckedFiles st_sel = [[''ws'', ''a.txt''], [''ws'', ''sub'', ''b.txt'']]
   \<and> written (fst (generateFile disk1 typed_out st_sel)) =
        Some ([''ws'', ''out.txt''],
              ''// File: a.txt'' @ [newline] @ ''X'' @ [newline, newline]
              @ ''// File: sub/b.txt'' @ [newline] @ ''Y'' @ [newline, newline])"
proof -
  have c: "getCheckedFiles st_sel = [[''ws'', ''a.txt''], [''ws'', ''sub'', ''b.txt'']]"
    by (simp add: getCheckedFiles_def st_sel_eq new_FileItem_def)
  have h1: "getCheckedFiles st_sel \<noteq> []" by (simp add: c)
  have h2: "\<forall>f \<in> set (getCheckedFiles st_sel). \<exists>c. readFile disk1 f = Inr c"
    by (simp add: c readFile_def disk1_def)
  have h3: "showInputBox (typed typed_out) = Some ''out''"
    by (simp add: showInputBox_def validateInput_def typed_out_def)
  have h4: "workspaceRoot st_sel = Some [''ws'']" by (simp add: st_sel_eq)
  have h5: "writeError typed_out = None" by (simp add: typed_out_def)
  from generateFile_document[OF h1 h2 h3 h4 h5] h1 h3 h4 h5 c show ?thesis
    by (simp add: path_join_def path_relative_def readFile_def disk1_def)
qed


section \<open>Toggling a directory\<close>

lemma touched_keeps:
  "touched c st st' \<Longrightarrow> isChecked (objs st r) = c \<Longrightarrow> isChecked (objs st' r) = c"
  by (auto simp: touched_def updateCheckState_def dest!: spec[of _ r])

lemma touched_items: "touched c st st' \<Longrightarrow> items st' = items st"
  by (simp add: touched_def)

lemma mark_sets: "map_of (items st) p = Some r \<Longrightarrow> isChecked (objs (mark c p st) r) = c"
  by (simp add: mark_def updateCheckState_def)

lemma toggleDirectoryChildren_reaches:
  "toggleDirectoryChildren fs d c st = (Resolved, st') \<Longrightarrow> descendant fs d q \<Longrightarrow>
     map_of (items st) q = Some r \<Longrightarrow> isChecked (objs st' r) = c"
  "toggleDirectoryChildren_loop fs d c es st = (Resolved, st') \<Longrightarrow> e \<in> set es \<Longrightarrow>
     \<not> ignored (name e) \<Longrightarrow>
     q = path_join d (name e) \<or> isDirectory e \<and> descendant fs (path_join d (name e)) q \<Longrightarrow>
     map_of (items st) q = Some r \<Longrightarrow> isChecked (objs st' r) = c"
proof (induction fs d c st and fs d c es st arbitrary: st' q r and st' e q r
    rule: toggleDirectoryChildren_toggleDirectoryChildren_loop.induct)
  case (1 fs dirPath checked st)
  from "1.prems"(1) obtain es where rd: "readdir fs dirPath = Inr es"
    and run: "toggleDirectoryChildren_loop fs dirPath checked es st = (Resolved, st')"
    by (auto simp: toggleDirectoryChildren.simps split: sum.splits)
  from "1.prems"(2) show ?case
  proof (cases rule: descendant.cases)
    case (child es' e)
    with rd have "e \<in> set es" by simp
    from "1.IH"[OF rd run this child(4)] child(1) "1.prems"(3) show ?thesis by blast
  next
    case (deeper es' e)
    with rd have "e \<in> set es" by simp
    from "1.IH"[OF rd run this deeper(3)] deeper(4,5) "1.prems"(3) show ?thesis by blast
  qed
next
  case (2 fs dirPath checked st)
  then show ?case by simp
next
  case (3 fs dirPath checked entry rest st)
  let ?p = "path_join dirPath (name entry)"
  let ?st1 = "mark checked ?p st"
  note run = "3.prems"(1) and mem = "3.prems"(2) and ni = "3.prems"(3)
    and tgt = "3.prems"(4) and known = "3.prems"(5)
  have s1: "touched checked st ?st1" by (rule touched_mark)
  have known1: "map_of (items ?st1) q = Some r" using known touched_items[OF s1] by simp
  show ?case
  proof (cases "ignored (name entry)")
    case True
    with run have run': "toggleDirectoryChildren_loop fs dirPath checked rest st = (Resolved, st')"
      by (simp add: loop_skip)
    from True ni mem have "e \<in> set rest" by auto
    from True have ig: "name entry = ''node_modules'' \<or> name entry = ''.git''"
      by (simp add: ignored_def)
    from "3.IH"(1)[OF ig run' \<open>e \<in> set rest\<close> ni tgt known] show ?thesis .
  next
    case False
    then have nig: "\<not> (name entry = ''node_modules'' \<or> name entry = ''.git'')"
      by (simp add: ignored_def)
    have m: "?st1 = (case map_of (items st) ?p of None \<Rightarrow> st
      | Some item \<Rightarrow> st\<lparr>objs := (objs st)(item := updateCheckState checked (objs st item))\<rparr>)"
      by (simp add: mark_def)
    show ?thesis
    proof (cases "isDirectory entry")
      case nd: False
      with False run have run': "toggleDirectoryChildren_loop fs dirPath checked rest ?st1 = (Resolved, st')"
        by (simp add: loop_file)
      have s2: "touched checked ?st1 st'"
        using toggleDirectoryChildren_touched(2)[of checked ?st1 fs dirPath rest] run' by simp
      show ?thesis
      proof (cases "e = entry")
        case True
        with tgt nd have "q = ?p" by simp
        with known have "isChecked (objs ?st1 r) = checked" by (simp add: mark_sets)
        with s2 show ?thesis by (rule touched_keeps)
      next
        case False
        with mem have "e \<in> set rest" by simp
        from "3.IH"(4)[OF nig refl m nd run' this ni tgt known1] show ?thesis .
      qed
    next
      case dir: True
      obtain pr st2 where sub: "toggleDirectoryChildren fs ?p checked ?st1 = (pr, st2)"
        by (cases "toggleDirectoryChildren fs ?p checked ?st1")
      have pr: "pr = Resolved"
      proof (cases pr)
        case (Rejected x)
        with False dir sub run show ?thesis by (simp add: loop_dir_rejected)
      qed simp
      with False dir sub run
      have run': "toggleDirectoryChildren_loop fs dirPath checked rest st2 = (Resolved, st')"
        by (simp add: loop_dir_resolved)
      have s2: "touched checked ?st1 st2"
        using toggleDirectoryChildren_touched(1)[of checked ?st1 fs ?p] sub by simp
      have s3: "touched checked st2 st'"
        using toggleDirectoryChildren_touched(2)[of checked st2 fs dirPath rest] run' by simp
      have known2: "map_of (items st2) q = Some r" using known1 touched_items[OF s2] by simp
      show ?thesis
      proof (cases "e = entry")
        case True
        from tgt show ?thesis
        proof
          assume "q = path_join dirPath (name e)"
          with True known have "isChecked (objs ?st1 r) = checked" by (simp add: mark_sets)
          with s2 have "isChecked (objs st2 r) = checked" by (rule touched_keeps)
          with s3 show ?thesis by (rule touched_keeps)
        next
          assume "isDirectory e \<and> descendant fs (path_join dirPath (name e)) q"
          with True have d: "descendant fs ?p q" by simp
          from "3.IH"(2)[OF nig refl m dir sub[unfolded pr] d known1]
          have "isChecked (objs st2 r) = checked" .
          with s3 show ?thesis by (rule touched_keeps)
        qed
      next
        case False
        with mem have "e \<in> set rest" by simp
        from "3.IH"(3)[OF nig refl m dir sub[symmetric] pr run' this ni tgt known2]
        show ?thesis .
      qed
    qed
  qed
qed


lemma readdir_error: "readdir fs p = Inl x \<Longrightarrow> \<exists>c. x = IOError c p"
  by (auto simp: readdir_def split: option.splits fsnode.splits if_splits)

lemma toggleDirectoryChildren_rejection:
  "toggleDirectoryChildren fs d c st = (Rejected x, st') \<Longrightarrow>
     \<exists>p. readdir fs p = Inl x \<and> (p = d \<or> descendant fs d p)"
  "toggleDirectoryChildren_loop fs d c es st = (Rejected x, st') \<Longrightarrow>
     readdir fs d = Inr es0 \<Longrightarrow> set es \<subseteq> set es0 \<Longrightarrow>
     \<exists>p. readdir fs p = Inl x \<and> descendant fs d p"
proof (induction fs d c st and fs d c es st arbitrary: st' x and st' x es0
    rule: toggleDirectoryChildren_toggleDirectoryChildren_loop.induct)
  case (1 fs dirPath checked st)
  show ?case
  proof (cases "readdir fs dirPath")
    case (Inl e)
    with "1.prems" have "e = x" by (simp add: toggleDirectoryChildren.simps)
    with Inl show ?thesis by blast
  next
    case (Inr es)
    with "1.prems" have "toggleDirectoryChildren_loop fs dirPath checked es st = (Rejected x, st')"
      by (simp add: toggleDirectoryChildren.simps)
    from "1.IH"[OF Inr this Inr] show ?thesis by blast
  qed
next
  case (2 fs dirPath checked st)
  then show ?case by (simp add: loop_Nil)
next
  case (3 fs dirPath checked entry rest st)
  let ?p = "path_join dirPath (name entry)"
  let ?st1 = "mark checked ?p st"
  note run = "3.prems"(1) and rd = "3.prems"(2) and sub = "3.prems"(3)
  from sub have mem: "entry \<in> set es0" and sub': "set rest \<subseteq> set es0" by auto
  show ?case
  proof (cases "ignored (name entry)")
    case True
    with run have run': "toggleDirectoryChildren_loop fs dirPath checked rest st = (Rejected x, st')"
      by (simp add: loop_skip)
    from True have ig: "name entry = ''node_modules'' \<or> name entry = ''.git''"
      by (simp add: ignored_def)
    from "3.IH"(1)[OF ig run' rd sub'] show ?thesis .
  next
    case False
    then have nig: "\<not> (name entry = ''node_modules'' \<or> name entry = ''.git'')"
      by (simp add: ignored_def)
    have m: "?st1 = (case map_of (items st) ?p of None \<Rightarrow> st
      | Some item \<Rightarrow> st\<lparr>objs := (objs st)(item := updateCheckState checked (objs st item))\<rparr>)"
      by (simp add: mark_def)
    show ?thesis
    proof (cases "isDirectory entry")
      case nd: False
      with False run have run': "toggleDirectoryChildren_loop fs dirPath checked rest ?st1 = (Rejected x, st')"
        by (simp add: loop_file)
      from "3.IH"(4)[OF nig refl m nd run' rd sub'] show ?thesis .
    next
      case dir: True
      obtain pr st2 where call: "toggleDirectoryChildren fs ?p checked ?st1 = (pr, st2)"
        by (cases "toggleDirectoryChildren fs ?p checked ?st1")
      show ?thesis
      proof (cases pr)
        case Resolved
        with False dir call run
        have run': "toggleDirectoryChildren_loop fs dirPath checked rest st2 = (Rejected x, st')"
          by (simp add: loop_dir_resolved)
        from "3.IH"(3)[OF nig refl m dir call[symmetric] Resolved run' rd sub'] show ?thesis .
      next
        case (Rejected y)
        with False dir call run have "y = x" by (simp add: loop_dir_rejected)
        with Rejected call have "toggleDirectoryChildren fs ?p checked ?st1 = (Rejected x, st2)"
          by simp
        from "3.IH"(2)[OF nig refl m dir this] obtain p where
          p: "readdir fs p = Inl x" "p = ?p \<or> descendant fs ?p p" by blast
        from p(2) have "descendant fs dirPath p"
        proof
          assume "p = ?p"
          with descendant.child[OF rd mem False] show ?thesis by simp
        next
          assume "descendant fs ?p p"
          from descendant.deeper[OF rd mem False dir this] show ?thesis .
        qed
        with p(1) show ?thesis by blast
      qed
    qed
  qed
qed

lemma toggleCheck_directory:
  "collapsibleState (objs st item) \<noteq> CollapsibleNone \<Longrightarrow>
   toggleCheck fs item st =
     \<lparr>raised = None,
      detached = Some (fst (toggleDirectoryChildren fs (filePath (objs st item)) (\<not> isChecked (objs st item))
         (st\<lparr>objs := (objs st)(item := updateCheckState (\<not> isChecked (objs st item)) (objs st item))\<rparr>))),
      post = snd (toggleDirectoryChildren fs (filePath (objs st item)) (\<not> isChecked (objs st item))
         (st\<lparr>objs := (objs st)(item := updateCheckState (\<not> isChecked (objs st item)) (objs st item))\<rparr>))\<rparr>"
  by (simp add: toggleCheck_def Let_def updateCheckState_def split: prod.splits)

lemma getCheckedFiles_mem:
  "(q, r) \<in> set (items st) \<Longrightarrow> isChecked (objs st r) \<Longrightarrow>
   collapsibleState (objs st r) = CollapsibleNone \<Longrightarrow> q \<in> set (getCheckedFiles st)"
  by (force simp: getCheckedFiles_eq selected_def)

lemma touched_kind:
  "touched c st st' \<Longrightarrow> collapsibleState (objs st' r) = collapsibleState (objs st r)"
  by (auto simp: touched_def updateCheckState_def dest!: spec[of _ r])


lemma toggleCheck_after_mark:
  "touched (\<not> isChecked (objs st item)) st (post (toggleCheck fs item st))"
proof -
  have "touched (\<not> isChecked (objs st item)) st
     (st\<lparr>objs := (objs st)(item := updateCheckState (\<not> isChecked (objs st item)) (objs st item))\<rparr>)"
    by (simp add: touched_def)
  from touched_trans[OF this toggleCheck_touched] show ?thesis .
qed

text \<open>
  C1, as stated, fails: with only the root expanded, toggling \<^verbatim>\<open>sub\<close> completes and
  checks \<^verbatim>\<open>sub\<close>, but \<^verbatim>\<open>sub/b.txt\<close>, a readable file on the disk below it, gets no
  entry in the map and \<^verbatim>\<open>getCheckedFiles\<close> stays empty.
\<close>

theorem toggleCheck_directory_unknown_descendant:
  "collapsibleState (objs st_root 1) = Collapsed
   \<and> filePath (objs st_root 1) = [''ws'', ''sub'']
   \<and> descendant disk1 [''ws'', ''sub''] [''ws'', ''sub'', ''b.txt'']
   \<and> readFile disk1 [''ws'', ''sub'', ''b.txt''] = Inr ''Y''
   \<and> detached (toggleCheck disk1 1 st_root) = Some Resolved
   \<and> isChecked (objs (post (toggleCheck disk1 1 st_root)) 1)
   \<and> map_of (items (post (toggleCheck disk1 1 st_root))) [''ws'', ''sub'', ''b.txt''] = None
   \<and> getCheckedFiles (post (toggleCheck disk1 1 st_root)) = []"
proof -
  have d: "descendant disk1 [''ws'', ''sub''] (path_join [''ws'', ''sub''] (name \<lparr>name = ''b.txt'', isDirectory = False\<rparr>))"
    by (rule descendant.child[OF readdir_disk1_sub]) (simp_all add: ignored_def)
  have r: "readFile disk1 [''ws'', ''sub'', ''b.txt''] = Inr ''Y''"
    by (simp add: readFile_def disk1_def)
  have t: "toggleCheck disk1 1 st_root =
     \<lparr>raised = None, detached = Some Resolved,
      post = st_root\<lparr>objs := (objs st_root)(1 := updateCheckState True (objs st_root 1))\<rparr>\<rparr>"
    by (simp add: toggleCheck_def st_root_eq Let_def new_FileItem_def updateCheckState_def
      toggleDirectoryChildren.simps toggleDirectoryChildren_loop.simps readdir_disk1_sub
      path_join_def)
  have c1: "collapsibleState (objs st_root 1) = Collapsed"
    and c2: "filePath (objs st_root 1) = [''ws'', ''sub'']"
    by (simp_all add: st_root_eq new_FileItem_def)
  have c3: "descendant disk1 [''ws'', ''sub''] [''ws'', ''sub'', ''b.txt'']"
    using d by (simp add: path_join_def)
  have c5: "detached (toggleCheck disk1 1 st_root) = Some Resolved"
    unfolding t by simp
  have c6: "isChecked (objs (post (toggleCheck disk1 1 st_root)) 1)"
    unfolding t by (simp add: updateCheckState_def)
  have c7: "map_of (items (post (toggleCheck disk1 1 st_root))) [''ws'', ''sub'', ''b.txt''] = None"
    unfolding t by (simp add: st_root_eq)
  have c8: "getCheckedFiles (post (toggleCheck disk1 1 st_root)) = []"
    unfolding t by (simp add: getCheckedFiles_def st_root_eq new_FileItem_def updateCheckState_def)
  from c1 c2 c3 r c5 c6 c7 c8 show ?thesis by blast
qed

text \<open>
  C1, amended: when an item that is not a file is toggled and the propagation completes,
  every descendant on the disk that already has a node in the map has the item's new
  checked value, as has the item itself; the map gets no new entry; and if the item became
  checked, every such descendant whose node is a file is among \<^verbatim>\<open>getCheckedFiles\<close>.
\<close>

theorem toggleCheck_directory_known_descendants:
  assumes "collapsibleState (objs st item) \<noteq> CollapsibleNone"
    and "detached (toggleCheck fs item st) = Some Resolved"
    and "descendant fs (filePath (objs st item)) q"
    and "map_of (items st) q = Some r"
  shows "isChecked (objs (post (toggleCheck fs item st)) r) = (\<not> isChecked (objs st item))
    \<and> isChecked (objs (post (toggleCheck fs item st)) item) = (\<not> isChecked (objs st item))
    \<and> items (post (toggleCheck fs item st)) = items st
    \<and> (\<not> isChecked (objs st item) \<and> collapsibleState (objs st r) = CollapsibleNone
          \<longrightarrow> q \<in> set (getCheckedFiles (post (toggleCheck fs item st))))"
proof -
  let ?n = "\<not> isChecked (objs st item)"
  let ?st1 = "st\<lparr>objs := (objs st)(item := updateCheckState ?n (objs st item))\<rparr>"
  let ?post = "post (toggleCheck fs item st)"
  from assms(1,2) have run: "toggleDirectoryChildren fs (filePath (objs st item)) ?n ?st1 = (Resolved, ?post)"
    by (simp add: toggleCheck_directory prod_eq_iff)
  have known: "map_of (items ?st1) q = Some r" using assms(4) by simp
  from toggleDirectoryChildren_reaches(1)[OF run assms(3) known]
  have a: "isChecked (objs ?post r) = ?n" .
  have b: "isChecked (objs ?post item) = ?n" by (rule toggleCheck_flips)
  have t: "touched ?n st ?post" by (rule toggleCheck_after_mark)
  then have c: "items ?post = items st" by (rule touched_items)
  have d: "q \<in> set (getCheckedFiles ?post)"
    if "\<not> isChecked (objs st item)" and "collapsibleState (objs st r) = CollapsibleNone"
  proof (rule getCheckedFiles_mem)
    from assms(4) have "(q, r) \<in> set (items st)" by (rule map_of_SomeD)
    with c show "(q, r) \<in> set (items ?post)" by simp
    from a that(1) show "isChecked (objs ?post r)" by simp
    from touched_kind[OF t] that(2) show "collapsibleState (objs ?post r) = CollapsibleNone" by simp
  qed
  from a b c d show ?thesis by blast
qed

theorem toggleCheck_directory_known_descendants_witness:
  "collapsibleState (objs st_sub 1) \<noteq> CollapsibleNone
   \<and> detached (toggleCheck disk1 1 st_sub) = Some Resolved
   \<and> descendant disk1 [''ws'', ''sub''] [''ws'', ''sub'', ''b.txt'']
   \<and> map_of (items st_sub) [''ws'', ''sub'', ''b.txt''] = Some 2
   \<and> isChecked (objs (post (toggleCheck disk1 1 st_sub)) 2)
   \<and> isChecked (objs (post (toggleCheck disk1 1 st_sub)) 1)
   \<and> items (post (toggleCheck disk1 1 st_sub)) = items st_sub
   \<and> [''ws'', ''sub'', ''b.txt''] \<in> set (getCheckedFiles (post (toggleCheck disk1 1 st_sub)))"
proof -
  have h1: "collapsibleState (objs st_sub 1) \<noteq> CollapsibleNone"
    by (simp add: st_sub_eq new_FileItem_def)
  have h2: "detached (toggleCheck disk1 1 st_sub) = Some Resolved"
    by (simp add: toggleCheck_def st_sub_eq Let_def new_FileItem_def updateCheckState_def
      toggleDirectoryChildren.simps toggleDirectoryChildren_loop.simps readdir_disk1_sub
      path_join_def)
  have fp: "filePath (objs st_sub 1) = [''ws'', ''sub'']"
    by (simp add: st_sub_eq new_FileItem_def)
  have "descendant disk1 [''ws'', ''sub''] (path_join [''ws'', ''sub''] (name \<lparr>name = ''b.txt'', isDirectory = False\<rparr>))"
    by (rule descendant.child[OF readdir_disk1_sub]) (simp_all add: ignored_def)
  then have d: "descendant disk1 [''ws'', ''sub''] [''ws'', ''sub'', ''b.txt'']"
    by (simp add: path_join_def)
  then have h3: "descendant disk1 (filePath (objs st_sub 1)) [''ws'', ''sub'', ''b.txt'']"
    unfolding fp .
  have h4: "map_of (items st_sub) [''ws'', ''sub'', ''b.txt''] = Some 2"
    by (simp add: st_sub_eq)
  have n: "\<not> isChecked (objs st_sub 1)" "collapsibleState (objs st_sub 2) = CollapsibleNone"
    by (simp_all add: st_sub_eq new_FileItem_def)
  from toggleCheck_directory_known_descendants[OF h1 h2 h3 h4] h1 h2 d h4 n show ?thesis
    by simp
qed


lemma toggle_proj_disk2:
  "toggleCheck disk2 0 st2_proj =
     \<lparr>raised = None,
      detached = Some (Rejected (IOError EACCES [''ws'', ''proj'', ''secret''])),
      post = st2_proj\<lparr>objs := (objs st2_proj)
               (0 := updateCheckState True (objs st2_proj 0),
                3 := updateCheckState True (objs st2_proj 3),
                4 := updateCheckState True (objs st2_proj 4))\<rparr>\<rparr>"
  by (simp add: toggleCheck_def st2_proj_eq Let_def new_FileItem_def updateCheckState_def
      toggleDirectoryChildren.simps toggleDirectoryChildren_loop.simps readdir_disk2_proj
      readdir_disk2_secret path_join_def)

lemma descendant_secret: "descendant disk2 [''ws'', ''proj''] [''ws'', ''proj'', ''secret'']"
proof -
  have "descendant disk2 [''ws'', ''proj'']
      (path_join [''ws'', ''proj''] (name \<lparr>name = ''secret'', isDirectory = True\<rparr>))"
    by (rule descendant.child[OF readdir_disk2_proj]) (simp_all add: ignored_def)
  then show ?thesis by (simp add: path_join_def)
qed

text \<open>
  C2, as stated, fails: \<^verbatim>\<open>proj/secret\<close> cannot be listed, yet toggling \<^verbatim>\<open>proj\<close> raises
  nothing to its caller; the error is that of the promise \<^verbatim>\<open>toggleCheck\<close> dropped.
\<close>

theorem toggleCheck_error_not_raised:
  "collapsibleState (objs st2_proj 0) = Collapsed
   \<and> filePath (objs st2_proj 0) = [''ws'', ''proj'']
   \<and> descendant disk2 [''ws'', ''proj''] [''ws'', ''proj'', ''secret'']
   \<and> readdir disk2 [''ws'', ''proj'', ''secret''] = Inl (IOError EACCES [''ws'', ''proj'', ''secret''])
   \<and> raised (toggleCheck disk2 0 st2_proj) = None
   \<and> detached (toggleCheck disk2 0 st2_proj)
        = Some (Rejected (IOError EACCES [''ws'', ''proj'', ''secret'']))"
proof -
  have c1: "collapsibleState (objs st2_proj 0) = Collapsed"
    and c2: "filePath (objs st2_proj 0) = [''ws'', ''proj'']"
    by (simp_all add: st2_proj_eq new_FileItem_def)
  have c5: "raised (toggleCheck disk2 0 st2_proj) = None"
    unfolding toggle_proj_disk2 by simp
  have c6: "detached (toggleCheck disk2 0 st2_proj)
        = Some (Rejected (IOError EACCES [''ws'', ''proj'', ''secret'']))"
    unfolding toggle_proj_disk2 by simp
  from c1 c2 descendant_secret readdir_disk2_secret c5 c6 show ?thesis by blast
qed

lemma toggleDirectoryChildren_trail:
  "\<exists>ps. walk fs d ps (fst (toggleDirectoryChildren fs d c st))
      \<and> snd (toggleDirectoryChildren fs d c st) = fold (mark c) ps st"
  "\<exists>ps. walk_entries fs d es ps (fst (toggleDirectoryChildren_loop fs d c es st))
      \<and> snd (toggleDirectoryChildren_loop fs d c es st) = fold (mark c) ps st"
proof (induction fs d c st and fs d c es st
    rule: toggleDirectoryChildren_toggleDirectoryChildren_loop.induct)
  case (1 fs dirPath checked st)
  show ?case
  proof (cases "readdir fs dirPath")
    case (Inl x)
    then have "toggleDirectoryChildren fs dirPath checked st = (Rejected x, st)"
      by (simp add: toggleDirectoryChildren.simps)
    with walk_walk_entries.unreadable[OF Inl] show ?thesis by auto
  next
    case (Inr es)
    then have eq: "toggleDirectoryChildren fs dirPath checked st
        = toggleDirectoryChildren_loop fs dirPath checked es st"
      by (simp add: toggleDirectoryChildren.simps)
    from "1.IH"[OF Inr] obtain ps where
      "walk_entries fs dirPath es ps (fst (toggleDirectoryChildren_loop fs dirPath checked es st))"
      "snd (toggleDirectoryChildren_loop fs dirPath checked es st) = fold (mark checked) ps st"
      by blast
    with walk_walk_entries.listing[OF Inr] eq show ?thesis by auto
  qed
next
  case (2 fs dirPath checked st)
  show ?case using walk_walk_entries.finished[of fs dirPath] by (auto simp: loop_Nil)
next
  case (3 fs dirPath checked entry rest st)
  let ?p = "path_join dirPath (name entry)"
  let ?st1 = "mark checked ?p st"
  show ?case
  proof (cases "ignored (name entry)")
    case True
    then have ig: "name entry = ''node_modules'' \<or> name entry = ''.git''"
      by (simp add: ignored_def)
    from "3.IH"(1)[OF ig] obtain ps where
      w: "walk_entries fs dirPath rest ps (fst (toggleDirectoryChildren_loop fs dirPath checked rest st))"
      and s: "snd (toggleDirectoryChildren_loop fs dirPath checked rest st) = fold (mark checked) ps st"
      by blast
    from walk_walk_entries.skipped[OF True w] s True show ?thesis
      by (auto simp: loop_skip)
  next
    case False
    then have nig: "\<not> (name entry = ''node_modules'' \<or> name entry = ''.git'')"
      by (simp add: ignored_def)
    have m: "?st1 = (case map_of (items st) ?p of None \<Rightarrow> st
      | Some item \<Rightarrow> st\<lparr>objs := (objs st)(item := updateCheckState checked (objs st item))\<rparr>)"
      by (simp add: mark_def)
    show ?thesis
    proof (cases "isDirectory entry")
      case nd: False
      from "3.IH"(4)[OF nig refl m nd] obtain ps where
        w: "walk_entries fs dirPath rest ps (fst (toggleDirectoryChildren_loop fs dirPath checked rest ?st1))"
        and s: "snd (toggleDirectoryChildren_loop fs dirPath checked rest ?st1) = fold (mark checked) ps ?st1"
        by blast
      from walk_walk_entries.regular[OF False nd w] s False nd show ?thesis
        by (intro exI[of _ "?p # ps"]) (simp add: loop_file)
    next
      case dir: True
      obtain pr st2 where call: "toggleDirectoryChildren fs ?p checked ?st1 = (pr, st2)"
        by (cases "toggleDirectoryChildren fs ?p checked ?st1")
      from "3.IH"(2)[OF nig refl m dir] call obtain ps where
        w1: "walk fs ?p ps pr" and s1: "st2 = fold (mark checked) ps ?st1"
        by auto
      show ?thesis
      proof (cases pr)
        case (Rejected x)
        with False dir call
        have eq: "toggleDirectoryChildren_loop fs dirPath checked (entry # rest) st = (Rejected x, st2)"
          by (simp add: loop_dir_rejected)
        from walk_walk_entries.failed[OF False dir w1[unfolded Rejected]] s1 eq show ?thesis
          by (intro exI[of _ "?p # ps"]) simp
      next
        case Resolved
        with False dir call
        have eq: "toggleDirectoryChildren_loop fs dirPath checked (entry # rest) st
            = toggleDirectoryChildren_loop fs dirPath checked rest st2"
          by (simp add: loop_dir_resolved)
        from "3.IH"(3)[OF nig refl m dir call[symmetric] Resolved] obtain ps' where
          w2: "walk_entries fs dirPath rest ps' (fst (toggleDirectoryChildren_loop fs dirPath checked rest st2))"
          and s2: "snd (toggleDirectoryChildren_loop fs dirPath checked rest st2) = fold (mark checked) ps' st2"
          by blast
        from walk_walk_entries.entered[OF False dir w1[unfolded Resolved] w2] s1 s2 eq show ?thesis
          by (intro exI[of _ "?p # ps @ ps'"]) simp
      qed
    qed
  qed
qed

lemma touched_fold_mark: "touched c st (fold (mark c) ps st)"
proof (induction ps arbitrary: st)
  case Nil
  show ?case by (simp add: touched_refl)
next
  case (Cons p ps)
  from touched_trans[OF touched_mark Cons] show ?case by simp
qed

lemma fold_mark_sets:
  "q \<in> set ps \<Longrightarrow> map_of (items st) q = Some r \<Longrightarrow>
   isChecked (objs (fold (mark c) ps st) r) = c"
proof (induction ps arbitrary: st)
  case Nil
  then show ?case by simp
next
  case (Cons p ps)
  have it: "items (mark c p st) = items st" using touched_mark by (rule touched_items)
  show ?case
  proof (cases "q = p")
    case True
    with Cons.prems have "isChecked (objs (mark c p st) r) = c" by (simp add: mark_sets)
    with touched_fold_mark[of c "mark c p st" ps] show ?thesis
      by (simp add: touched_keeps)
  next
    case False
    with Cons.prems have "q \<in> set ps" by simp
    from Cons.IH[OF this, of "mark c p st"] Cons.prems(2) it show ?thesis by simp
  qed
qed

inductive_cases walkE: "walk fs d ps pr"
inductive_cases walk_NilE: "walk_entries fs d [] ps pr"
inductive_cases walk_ConsE: "walk_entries fs d (e # rest) ps pr"

lemma walk_deterministic:
  "walk fs d ps pr \<Longrightarrow> walk fs d ps' pr' \<Longrightarrow> ps' = ps \<and> pr' = pr"
  "walk_entries fs d es ps pr \<Longrightarrow> walk_entries fs d es ps' pr' \<Longrightarrow> ps' = ps \<and> pr' = pr"
proof (induction arbitrary: ps' pr' and ps' pr' rule: walk_walk_entries.inducts)
  case (unreadable d x)
  show ?case using unreadable(1)
    by - (rule walkE[OF unreadable(2)], simp_all)
next
  case (listing d es ps pr)
  show ?case using listing(1)
    by - (rule walkE[OF listing(4)], auto dest: listing(3))
next
  case (finished d)
  then show ?case by (rule walk_NilE) simp
next
  case (skipped e d rest ps pr)
  show ?case using skipped(1)
    by - (rule walk_ConsE[OF skipped(4)], auto dest: skipped(3))
next
  case (regular e d rest ps pr)
  show ?case using regular(1,2)
    by - (rule walk_ConsE[OF regular(5)], auto dest: regular(4))
next
  case (failed e d ps x rest)
  show ?case using failed(1,2)
    by - (rule walk_ConsE[OF failed(5)], auto dest: failed(4))
next
  case (entered e d ps rest ps'' pr)
  show ?case using entered(1,2)
    by - (rule walk_ConsE[OF entered(7)], auto dest: entered(4) entered(6))
qed


lemma walk_proj_disk2:
  "walk disk2 [''ws'', ''proj''] [[''ws'', ''proj'', ''a.txt''], [''ws'', ''proj'', ''secret'']]
     (Rejected (IOError EACCES [''ws'', ''proj'', ''secret'']))"
proof -
  let ?a = "\<lparr>name = ''a.txt'', isDirectory = False\<rparr>"
  let ?s = "\<lparr>name = ''secret'', isDirectory = True\<rparr>"
  let ?z = "\<lparr>name = ''z.txt'', isDirectory = False\<rparr>"
  let ?x = "IOError EACCES [''ws'', ''proj'', ''secret'']"
  have s0: "walk disk2 (path_join [''ws'', ''proj''] (name ?s)) [] (Rejected ?x)"
    by (rule walk_walk_entries.unreadable) (simp add: path_join_def readdir_disk2_secret)
  have s1: "walk_entries disk2 [''ws'', ''proj''] (?s # [?z])
      (path_join [''ws'', ''proj''] (name ?s) # []) (Rejected ?x)"
    by (rule walk_walk_entries.failed[OF _ _ s0]) (simp_all add: ignored_def)
  have s2: "walk_entries disk2 [''ws'', ''proj''] (?a # ?s # [?z])
      (path_join [''ws'', ''proj''] (name ?a) # path_join [''ws'', ''proj''] (name ?s) # []) (Rejected ?x)"
    by (rule walk_walk_entries.regular[OF _ _ s1]) (simp_all add: ignored_def)
  then have "walk_entries disk2 [''ws'', ''proj''] [?a, ?s, ?z]
      [[''ws'', ''proj'', ''a.txt''], [''ws'', ''proj'', ''secret'']] (Rejected ?x)"
    by (simp add: path_join_def)
  with readdir_disk2_proj show ?thesis by (rule walk_walk_entries.listing)
qed

text \<open>
  C2, amended: toggling an item that is not a file always returns to its caller without an
  exception. The propagation it started either completes, or is rejected with the I/O error
  of listing the item's directory or one of its descendants. Either way the item keeps its
  flipped value, the map is unchanged, and every object is as before or carries the new
  value. Nothing is rolled back: the provider left behind is exactly the flipped state with
  every entry of the trail marked, the trail being the entries the disk yields up to the
  end or up to the directory that failed; so every known entry visited before a failure
  keeps the new value.
\<close>

theorem toggleCheck_directory_outcomes:
  assumes "collapsibleState (objs st item) \<noteq> CollapsibleNone"
  shows "raised (toggleCheck fs item st) = None
    \<and> (detached (toggleCheck fs item st) = Some Resolved
        \<or> (\<exists>c p. detached (toggleCheck fs item st) = Some (Rejected (IOError c p))
              \<and> readdir fs p = Inl (IOError c p)
              \<and> (p = filePath (objs st item) \<or> descendant fs (filePath (objs st item)) p)))
    \<and> isChecked (objs (post (toggleCheck fs item st)) item) = (\<not> isChecked (objs st item))
    \<and> items (post (toggleCheck fs item st)) = items st
    \<and> (\<forall>r. objs (post (toggleCheck fs item st)) r = objs st r
           \<or> objs (post (toggleCheck fs item st)) r
                = updateCheckState (\<not> isChecked (objs st item)) (objs st r))
    \<and> (\<exists>pr trail. detached (toggleCheck fs item st) = Some pr
          \<and> walk fs (filePath (objs st item)) trail pr
          \<and> (\<forall>trail' pr'. walk fs (filePath (objs st item)) trail' pr'
                 \<longrightarrow> trail' = trail \<and> pr' = pr)
          \<and> post (toggleCheck fs item st)
               = fold (mark (\<not> isChecked (objs st item))) trail
                   (st\<lparr>objs := (objs st)
                      (item := updateCheckState (\<not> isChecked (objs st item)) (objs st item))\<rparr>)
          \<and> (\<forall>q \<in> set trail. \<forall>r. map_of (items st) q = Some r
                 \<longrightarrow> isChecked (objs (post (toggleCheck fs item st)) r)
                       = (\<not> isChecked (objs st item))))"
proof -
  let ?n = "\<not> isChecked (objs st item)"
  let ?st1 = "st\<lparr>objs := (objs st)(item := updateCheckState ?n (objs st item))\<rparr>"
  let ?d = "filePath (objs st item)"
  have a: "raised (toggleCheck fs item st) = None"
    using assms by (simp add: toggleCheck_directory)
  have det: "detached (toggleCheck fs item st) = Some (fst (toggleDirectoryChildren fs ?d ?n ?st1))"
    using assms by (simp add: toggleCheck_directory)
  have pst: "post (toggleCheck fs item st) = snd (toggleDirectoryChildren fs ?d ?n ?st1)"
    using assms by (simp add: toggleCheck_directory)
  have b: "detached (toggleCheck fs item st) = Some Resolved
        \<or> (\<exists>c p. detached (toggleCheck fs item st) = Some (Rejected (IOError c p))
              \<and> readdir fs p = Inl (IOError c p) \<and> (p = ?d \<or> descendant fs ?d p))"
  proof (cases "fst (toggleDirectoryChildren fs ?d ?n ?st1)")
    case Resolved
    with det show ?thesis by simp
  next
    case (Rejected x)
    then have "toggleDirectoryChildren fs ?d ?n ?st1
        = (Rejected x, snd (toggleDirectoryChildren fs ?d ?n ?st1))"
      by (simp add: prod_eq_iff)
    from toggleDirectoryChildren_rejection(1)[OF this] obtain p where
      p: "readdir fs p = Inl x" "p = ?d \<or> descendant fs ?d p" by blast
    from readdir_error[OF p(1)] obtain c where "x = IOError c p" by blast
    with p Rejected det show ?thesis by auto
  qed
  have c: "isChecked (objs (post (toggleCheck fs item st)) item) = ?n"
    by (rule toggleCheck_flips)
  have t: "touched ?n st (post (toggleCheck fs item st))" by (rule toggleCheck_after_mark)
  then have d: "items (post (toggleCheck fs item st)) = items st" by (rule touched_items)
  from t have e: "\<forall>r. objs (post (toggleCheck fs item st)) r = objs st r
           \<or> objs (post (toggleCheck fs item st)) r = updateCheckState ?n (objs st r)"
    by (simp add: touched_def)
  from toggleDirectoryChildren_trail(1)[of fs ?d ?n ?st1] obtain trail where
    w: "walk fs ?d trail (fst (toggleDirectoryChildren fs ?d ?n ?st1))"
    and s: "snd (toggleDirectoryChildren fs ?d ?n ?st1) = fold (mark ?n) trail ?st1"
    by blast
  have u: "\<forall>trail' pr'. walk fs ?d trail' pr'
      \<longrightarrow> trail' = trail \<and> pr' = fst (toggleDirectoryChildren fs ?d ?n ?st1)"
    using walk_deterministic(1)[OF w] by blast
  have k: "\<forall>q \<in> set trail. \<forall>r. map_of (items st) q = Some r
      \<longrightarrow> isChecked (objs (post (toggleCheck fs item st)) r) = ?n"
  proof (intro ballI allI impI)
    fix q r assume q: "q \<in> set trail" and r: "map_of (items st) q = Some r"
    from r have "map_of (items ?st1) q = Some r" by simp
    from fold_mark_sets[OF q this, of ?n] pst s
    show "isChecked (objs (post (toggleCheck fs item st)) r) = ?n" by simp
  qed
  have f: "\<exists>pr trail. detached (toggleCheck fs item st) = Some pr
          \<and> walk fs ?d trail pr
          \<and> (\<forall>trail' pr'. walk fs ?d trail' pr' \<longrightarrow> trail' = trail \<and> pr' = pr)
          \<and> post (toggleCheck fs item st) = fold (mark ?n) trail ?st1
          \<and> (\<forall>q \<in> set trail. \<forall>r. map_of (items st) q = Some r
                 \<longrightarrow> isChecked (objs (post (toggleCheck fs item st)) r) = ?n)"
  proof (intro exI[of _ "fst (toggleDirectoryChildren fs ?d ?n ?st1)"] exI[of _ trail] conjI)
    show "detached (toggleCheck fs item st) = Some (fst (toggleDirectoryChildren fs ?d ?n ?st1))"
      by (rule det)
    show "walk fs ?d trail (fst (toggleDirectoryChildren fs ?d ?n ?st1))" by (rule w)
    show "\<forall>trail' pr'. walk fs ?d trail' pr'
      \<longrightarrow> trail' = trail \<and> pr' = fst (toggleDirectoryChildren fs ?d ?n ?st1)" by (rule u)
    show "post (toggleCheck fs item st) = fold (mark ?n) trail ?st1"
      unfolding pst by (rule s)
    show "\<forall>q \<in> set trail. \<forall>r. map_of (items st) q = Some r
                 \<longrightarrow> isChecked (objs (post (toggleCheck fs item st)) r) = ?n" by (rule k)
  qed
  show ?thesis
    by (intro conjI) (rule a, rule b, rule c, rule d, rule e, rule f)
qed

theorem toggleCheck_directory_outcomes_witness:
  "collapsibleState (objs st2_proj 0) \<noteq> CollapsibleNone
   \<and> filePath (objs st2_proj 0) = [''ws'', ''proj'']
   \<and> walk disk2 [''ws'', ''proj''] [[''ws'', ''proj'', ''a.txt''], [''ws'', ''proj'', ''secret'']]
        (Rejected (IOError EACCES [''ws'', ''proj'', ''secret'']))
   \<and> map_of (items st2_proj) [''ws'', ''proj'', ''a.txt''] = Some 3
   \<and> map_of (items st2_proj) [''ws'', ''proj'', ''secret''] = Some 4
   \<and> raised (toggleCheck disk2 0 st2_proj) = None
   \<and> detached (toggleCheck disk2 0 st2_proj)
        = Some (Rejected (IOError EACCES [''ws'', ''proj'', ''secret'']))
   \<and> isChecked (objs (post (toggleCheck disk2 0 st2_proj)) 0)
   \<and> isChecked (objs (post (toggleCheck disk2 0 st2_proj)) 3)
   \<and> isChecked (objs (post (toggleCheck disk2 0 st2_proj)) 4)
   \<and> \<not> isChecked (objs (post (toggleCheck disk2 0 st2_proj)) 5)
   \<and> items (post (toggleCheck disk2 0 st2_proj)) = items st2_proj"
proof -
  have h: "collapsibleState (objs st2_proj 0) \<noteq> CollapsibleNone"
    by (simp add: st2_proj_eq new_FileItem_def)
  have fp: "filePath (objs st2_proj 0) = [''ws'', ''proj'']"
    and n: "\<not> isChecked (objs st2_proj 0)"
    and m3: "map_of (items st2_proj) [''ws'', ''proj'', ''a.txt''] = Some 3"
    and m4: "map_of (items st2_proj) [''ws'', ''proj'', ''secret''] = Some 4"
    by (simp_all add: st2_proj_eq new_FileItem_def)
  have a5: "\<not> isChecked (objs (post (toggleCheck disk2 0 st2_proj)) 5)"
    unfolding toggle_proj_disk2 by (simp add: st2_proj_eq new_FileItem_def)
  note inst = toggleCheck_directory_outcomes[OF h, of disk2, unfolded fp]
  from inst have r: "raised (toggleCheck disk2 0 st2_proj) = None"
    and f: "isChecked (objs (post (toggleCheck disk2 0 st2_proj)) 0) = (\<not> isChecked (objs st2_proj 0))"
    and i: "items (post (toggleCheck disk2 0 st2_proj)) = items st2_proj"
    by blast+
  from inst obtain pr trail where
    det: "detached (toggleCheck disk2 0 st2_proj) = Some pr"
    and uniq: "\<forall>trail' pr'. walk disk2 [''ws'', ''proj''] trail' pr' \<longrightarrow> trail' = trail \<and> pr' = pr"
    and kept: "\<forall>q \<in> set trail. \<forall>r. map_of (items st2_proj) q = Some r
                 \<longrightarrow> isChecked (objs (post (toggleCheck disk2 0 st2_proj)) r)
                       = (\<not> isChecked (objs st2_proj 0))"
    by blast
  from uniq walk_proj_disk2
  have tr: "trail = [[''ws'', ''proj'', ''a.txt''], [''ws'', ''proj'', ''secret'']]"
    and pr: "pr = Rejected (IOError EACCES [''ws'', ''proj'', ''secret''])" by blast+
  from kept tr m3 n have a3: "isChecked (objs (post (toggleCheck disk2 0 st2_proj)) 3)" by simp
  from kept tr m4 n have a4: "isChecked (objs (post (toggleCheck disk2 0 st2_proj)) 4)" by simp
  from f n have a0: "isChecked (objs (post (toggleCheck disk2 0 st2_proj)) 0)" by simp
  from h fp walk_proj_disk2 m3 m4 r det[unfolded pr] a0 a3 a4 a5 i show ?thesis by blast
qed

lemma readdir_disk3_ws: "readdir disk3 [''ws''] = Inr [\<lparr>name = ''proj'', isDirectory = True\<rparr>]"
  by (simp add: readdir_def disk3_def)

lemma readdir_disk3_proj:
  "readdir disk3 [''ws'', ''proj''] =
     Inr [\<lparr>name = ''.git'', isDirectory = False\<rparr>, \<lparr>name = ''a.txt'', isDirectory = False\<rparr>]"
  by (simp add: readdir_def disk3_def)

lemma st3_proj_eq:
  "st3_proj =
     \<lparr>objs = (\<lambda>_. new_FileItem [] CollapsibleNone [] False)
        (0 := new_FileItem ''proj'' Collapsed [''ws'', ''proj''] False,
         1 := new_FileItem ''.git'' CollapsibleNone [''ws'', ''proj'', ''.git''] False,
         2 := new_FileItem ''a.txt'' CollapsibleNone [''ws'', ''proj'', ''a.txt''] False),
      fresh = 3,
      items = [([''ws'', ''proj''], 0), ([''ws'', ''proj'', ''.git''], 1),
               ([''ws'', ''proj'', ''a.txt''], 2)],
      allChecked = False, workspaceRoot = Some [''ws'']\<rparr>"
  by (simp add: st3_proj_def getChildren_def getFilesInDirectory_def readdir_disk3_ws
      readdir_disk3_proj init_def alloc_def Map_get_def path_join_def Let_def new_FileItem_def
      getFilesInDirectory_loop.simps eval_nat_numeral)

text \<open>
  C3: the listing shows the file \<^verbatim>\<open>proj/.git\<close> (it skips the two names only for
  directories), but the propagation skips them whatever the kind: toggling \<^verbatim>\<open>proj\<close>
  checks \<^verbatim>\<open>a.txt\<close> and leaves the file \<^verbatim>\<open>.git\<close> unchecked.
\<close>

theorem toggleCheck_skips_git_file:
  "lookup disk3 [''ws'', ''proj'', ''.git''] = Some (File True ''gitdir: ../.git/modules/proj'')
   \<and> map_of (items st3_proj) [''ws'', ''proj'', ''.git''] = Some 1
   \<and> collapsibleState (objs st3_proj 1) = CollapsibleNone
   \<and> filePath (objs st3_proj 0) = [''ws'', ''proj'']
   \<and> detached (toggleCheck disk3 0 st3_proj) = Some Resolved
   \<and> isChecked (objs (post (toggleCheck disk3 0 st3_proj)) 0)
   \<and> isChecked (objs (post (toggleCheck disk3 0 st3_proj)) 2)
   \<and> \<not> isChecked (objs (post (toggleCheck disk3 0 st3_proj)) 1)
   \<and> getCheckedFiles (post (toggleCheck disk3 0 st3_proj)) = [[''ws'', ''proj'', ''a.txt'']]"
proof -
  have t: "toggleCheck disk3 0 st3_proj =
     \<lparr>raised = None, detached = Some Resolved,
      post = st3_proj\<lparr>objs := (objs st3_proj)
               (0 := updateCheckState True (objs st3_proj 0),
                2 := updateCheckState True (objs st3_proj 2))\<rparr>\<rparr>"
    by (simp add: toggleCheck_def st3_proj_eq Let_def new_FileItem_def updateCheckState_def
      toggleDirectoryChildren.simps toggleDirectoryChildren_loop.simps readdir_disk3_proj
      path_join_def)
  have c1: "lookup disk3 [''ws'', ''proj'', ''.git''] = Some (File True ''gitdir: ../.git/modules/proj'')"
    by (simp add: disk3_def)
  have c2: "map_of (items st3_proj) [''ws'', ''proj'', ''.git''] = Some 1"
    and c3: "collapsibleState (objs st3_proj 1) = CollapsibleNone"
    and c4: "filePath (objs st3_proj 0) = [''ws'', ''proj'']"
    by (simp_all add: st3_proj_eq new_FileItem_def)
  have c5: "detached (toggleCheck disk3 0 st3_proj) = Some Resolved"
    unfolding t by simp
  have c6: "isChecked (objs (post (toggleCheck disk3 0 st3_proj)) 0)"
    and c7: "isChecked (objs (post (toggleCheck disk3 0 st3_proj)) 2)"
    unfolding t by (simp_all add: updateCheckState_def)
  have c8: "\<not> isChecked (objs (post (toggleCheck disk3 0 st3_proj)) 1)"
    unfolding t by (simp add: st3_proj_eq new_FileItem_def)
  have c9: "getCheckedFiles (post (toggleCheck disk3 0 st3_proj)) = [[''ws'', ''proj'', ''a.txt'']]"
    unfolding t by (simp add: getCheckedFiles_def st3_proj_eq new_FileItem_def updateCheckState_def)
  from c1 c2 c3 c4 c5 c6 c7 c8 c9 show ?thesis by blast
qed


end
